theory Spec2Isabelle
  imports Main "HOL-Library.Word" "HOL-Library.Signed_Division"
begin

section \<open>Block and transaction validation (validate.go)\<close>

text \<open>
  A shallow embedding of the validation rules of \<^verbatim>\<open>src/validate.go\<close>.
  Go's \<^verbatim>\<open>int64\<close> is a 64-bit word read through \<open>sint\<close>, \<^verbatim>\<open>uint32\<close> a 32-bit
  word, and Go's \<^verbatim>\<open>int\<close> and \<^verbatim>\<open>uint\<close> are taken at their 64-bit width.
  A \<^verbatim>\<open>time.Time\<close> is an instant on the integer line of seconds.
  Everything that \<^verbatim>\<open>validate.go\<close> calls but does not define (the script
  package, the wire package, the database fetches, the checkpoints) is a field of the
  record \<open>Env\<close> defined below.
\<close>

subsection \<open>Data model\<close>

type_synonym ShaHash = "256 word"
type_synonym int64 = "64 word"
type_synonym uint32 = "32 word"
type_synonym goint = "64 word"
type_synonym byte = "8 word"
type_synonym time = int

record OutPoint =
  Hash :: ShaHash
  Index :: uint32

record TxIn =
  PreviousOutpoint :: OutPoint
  SignatureScript :: "byte list"
  Sequence :: uint32

record TxOut =
  Value :: int64
  PkScript :: "byte list"

record MsgTx =
  TxVersion :: uint32
  TxIn :: "TxIn list"
  TxOut :: "TxOut list"
  LockTime :: uint32

text \<open>
  An entry of the input store. The Go field \<^verbatim>\<open>tx\<close> is a pointer and may be
  \<^verbatim>\<open>nil\<close> (\<open>None\<close>); \<^verbatim>\<open>err\<close> is \<open>None\<close> for Go's \<^verbatim>\<open>nil\<close> error.
\<close>

datatype error =
    ErrNoTxInputs | ErrNoTxOutputs
  | ErrOutputNegative | ErrOutputTooHigh
  | ErrTotalOutNegative | ErrTotalOutTooHigh
  | ErrDuplicateOutpoint | ErrCoinbaseScriptLen | ErrNullPrevOut
  | ErrTargetTooLow | ErrTargetTooHigh | ErrHashAboveTarget
  | ErrTimeTooNew | ErrNoTransactions | ErrFirstNotCoinbase | ErrSecondCoinbase
  | ErrBadMerkleRoot | ErrDuplicateTx | ErrTooManySigOps
  | ErrHeightScriptShort | ErrHeightMismatch
  | ErrOverwriteUnspent
  | ErrMissingInput | ErrImmatureSpend | ErrInputIndexOutOfBounds | ErrDoubleSpend
  | ErrTotalInTooHigh | ErrSpendMoreThanInputs | ErrFeesOverflow | ErrCoinbasePaysTooMuch
  | ErrP2SHMissingInput | ErrP2SHSigOpsOverflow
  | TxShaMissing
  | ExtError nat
  | Panic

record txData =
  tx :: "MsgTx option"
  hash :: ShaHash
  blockHeight :: int64
  spent :: "bool list"
  err :: "error option"

text \<open>
  \<^verbatim>\<open>map[btcwire.ShaHash]*txData\<close>: every key owns its entry (no two keys share
  one \<^verbatim>\<open>txData\<close>), and an entry that exists is not a \<^verbatim>\<open>nil\<close> pointer.
\<close>

type_synonym txStore = "ShaHash \<rightharpoonup> txData"

record blockNode =
  hash :: ShaHash
  height :: int64
  timestamp :: time

record BlockHeader =
  Version :: "32 word"
  PrevBlock :: ShaHash
  MerkleRoot :: ShaHash
  Timestamp :: time
  Bits :: uint32
  Nonce :: uint32

record Block =
  Header :: BlockHeader
  Transactions :: "MsgTx list"

record Checkpoint =
  Height :: int64

text \<open>
  The collaborators of \<^verbatim>\<open>validate.go\<close>: the constants of \<^verbatim>\<open>btcwire\<close> and
  \<^verbatim>\<open>btcscript\<close>, the script counters, the hashing of transactions and blocks, the
  chain's fetches, the checkpoint, the configuration variables and the clock. They are
  functions of their arguments; an error they return is a value \<open>Inl e\<close>.
\<close>

record Env =
  GenesisHash :: ShaHash
  Bip16Activation :: time
  MaxBlockPayload :: int
  coinbaseMaturity :: int64
  GetSigOpCount :: "byte list \<Rightarrow> goint"
  GetPreciseSigOpCount :: "byte list \<Rightarrow> byte list \<Rightarrow> bool \<Rightarrow> goint"
  IsPayToScriptHash :: "byte list \<Rightarrow> bool"
  TxSha :: "MsgTx \<Rightarrow> error + ShaHash"
  BlockSha :: "Block \<Rightarrow> error + ShaHash"
  TxShas :: "Block \<Rightarrow> error + ShaHash list"
  CompactToBig :: "uint32 \<Rightarrow> int"
  ShaHashToBig :: "ShaHash \<Rightarrow> int"
  powLimit :: int
  timeNow :: time
  BuildMerkleTreeStore :: "Block \<Rightarrow> ShaHash list"
  fetchTxList :: "blockNode \<Rightarrow> ShaHash list \<Rightarrow> error + txData list"
  fetchInputTransactions :: "blockNode \<Rightarrow> Block \<Rightarrow> error + txStore"
  LatestCheckpoint :: "Checkpoint option"
  noVerify :: bool
  checkBlockScripts :: "Block \<Rightarrow> txStore \<Rightarrow> error option"

text \<open>The calls to the chain layer and to the script verifier, in the order made.\<close>

datatype call =
    CallFetchTxList "ShaHash list"
  | CallFetchInputTransactions
  | CallCheckBlockScripts

record ConnectResult =
  verdict :: "error option"
  finalStore :: "txStore option"
  calls :: "call list"

subsection \<open>Constants\<close>

definition satoshiPerBitcoin :: int64 where
  "satoshiPerBitcoin = 100000000"

definition maxSatoshi :: int64 where
  "maxSatoshi = 21000000 * satoshiPerBitcoin"

definition minCoinbaseScriptLen :: nat where
  "minCoinbaseScriptLen = 2"

definition maxCoinbaseScriptLen :: nat where
  "maxCoinbaseScriptLen = 100"

definition serializedHeightVersion :: int where
  "serializedHeightVersion = 2"

definition baseSubsidy :: int64 where
  "baseSubsidy = 50 * satoshiPerBitcoin"

definition subsidyHalvingInterval :: int where
  "subsidyHalvingInterval = 210000"

definition zeroHash :: ShaHash where
  "zeroHash = 0"

definition MaxUint32 :: uint32 where
  "MaxUint32 = 4294967295"

definition maxSigOpsPerBlock :: "Env \<Rightarrow> int" where
  "maxSigOpsPerBlock env = MaxBlockPayload env div 50"

definition block91842Hash :: ShaHash where
  "block91842Hash = 0x00000000000a4d0a398161ffc163c503763b1f4360639393e0e4c8e300e0caec"

definition block91880Hash :: ShaHash where
  "block91880Hash = 0x00000000000743f190a18c5577a3c2d2a1f610ae9601ac046a38084ccb7cd721"

subsection \<open>Monetary predicates\<close>

definition isNullOutpoint :: "OutPoint \<Rightarrow> bool" where
  "isNullOutpoint outpoint = (Index outpoint = MaxUint32 \<and> Hash outpoint = zeroHash)"

text \<open>
  \<^verbatim>\<open>isCoinBase\<close>: exactly one input, whose previous outpoint has the maximal index
  and the zero hash.
\<close>

definition isCoinBase :: "MsgTx \<Rightarrow> bool" where
  "isCoinBase msgTx =
     (case TxIn msgTx of
        [txIn] \<Rightarrow>
          \<not> (Index (PreviousOutpoint txIn) \<noteq> MaxUint32
             \<or> Hash (PreviousOutpoint txIn) \<noteq> zeroHash)
      | _ \<Rightarrow> False)"

text \<open>
  \<^verbatim>\<open>baseSubsidy >> uint(height/subsidyHalvingInterval)\<close>: the division is Go's
  signed division on \<^verbatim>\<open>int64\<close> (truncating, \<open>sdiv\<close>), the conversion to
  \<^verbatim>\<open>uint\<close> reinterprets the 64 bits (\<open>unat\<close> of the word), and \<^verbatim>\<open>>>\<close> on a
  signed operand is the arithmetic shift, defined in Go for every shift count.
\<close>

definition calcBlockSubsidy :: "int64 \<Rightarrow> int64" where
  "calcBlockSubsidy ht =
     signed_drop_bit
       (unat (word_of_int (sint ht sdiv subsidyHalvingInterval) :: 64 word))
       baseSubsidy"


subsection \<open>Transaction sanity\<close>

text \<open>
  The loop of \<^verbatim>\<open>checkTransactionSanity\<close> over the outputs, with the accumulator
  \<^verbatim>\<open>totalSatoshi\<close> as an argument. \<^verbatim>\<open>+=\<close> on \<^verbatim>\<open>int64\<close> wraps.
\<close>

fun checkTxOutValues :: "int64 \<Rightarrow> TxOut list \<Rightarrow> error option" where
  "checkTxOutValues totalSatoshi [] = None"
| "checkTxOutValues totalSatoshi (txOut # rest) =
     (if sint (Value txOut) < 0 then Some ErrOutputNegative
      else if sint (Value txOut) > sint maxSatoshi then Some ErrOutputTooHigh
      else if sint (totalSatoshi + Value txOut) < 0 then Some ErrTotalOutNegative
      else if sint (totalSatoshi + Value txOut) > sint maxSatoshi then Some ErrTotalOutTooHigh
      else checkTxOutValues (totalSatoshi + Value txOut) rest)"

text \<open>
  The duplicate-input loop. The Go map is keyed by the printed hash followed by the
  printed index; the printed hash has a fixed width, so two keys are equal exactly when
  the (hash, index) pairs are, and the pair is the key here.
\<close>

fun checkDuplicateInputs :: "(ShaHash \<times> uint32) list \<Rightarrow> TxIn list \<Rightarrow> error option" where
  "checkDuplicateInputs existingTxOut [] = None"
| "checkDuplicateInputs existingTxOut (txIn # rest) =
     (if (Hash (PreviousOutpoint txIn), Index (PreviousOutpoint txIn)) \<in> set existingTxOut
      then Some ErrDuplicateOutpoint
      else checkDuplicateInputs
             ((Hash (PreviousOutpoint txIn), Index (PreviousOutpoint txIn)) # existingTxOut) rest)"

definition checkTransactionSanity :: "MsgTx \<Rightarrow> error option" where
  "checkTransactionSanity msgTx =
     (if TxIn msgTx = [] then Some ErrNoTxInputs
      else if TxOut msgTx = [] then Some ErrNoTxOutputs
      else (case checkTxOutValues 0 (TxOut msgTx) of
        Some e \<Rightarrow> Some e
      | None \<Rightarrow>
        (case checkDuplicateInputs [] (TxIn msgTx) of
           Some e \<Rightarrow> Some e
         | None \<Rightarrow>
           (if isCoinBase msgTx then
              (if length (SignatureScript (hd (TxIn msgTx))) < minCoinbaseScriptLen
                  \<or> length (SignatureScript (hd (TxIn msgTx))) > maxCoinbaseScriptLen
               then Some ErrCoinbaseScriptLen else None)
            else if list_ex (\<lambda>txIn. isNullOutpoint (PreviousOutpoint txIn)) (TxIn msgTx)
              then Some ErrNullPrevOut else None))))"

subsection \<open>Proof of work\<close>

definition checkProofOfWork :: "Env \<Rightarrow> Block \<Rightarrow> error option" where
  "checkProofOfWork env block =
     (if CompactToBig env (Bits (Header block)) \<le> 0 then Some ErrTargetTooLow
      else if CompactToBig env (Bits (Header block)) > powLimit env then Some ErrTargetTooHigh
      else (case BlockSha env block of
        Inl e \<Rightarrow> Some e
      | Inr blockHash \<Rightarrow>
          (if ShaHashToBig env blockHash > CompactToBig env (Bits (Header block))
           then Some ErrHashAboveTarget else None)))"

subsection \<open>Signature operation counting\<close>

definition countSigOps :: "Env \<Rightarrow> MsgTx \<Rightarrow> goint" where
  "countSigOps env msgTx =
     foldl (\<lambda>totalSigOps txOut. totalSigOps + GetSigOpCount env (PkScript txOut))
       (foldl (\<lambda>totalSigOps txIn. totalSigOps + GetSigOpCount env (SignatureScript txIn))
          0 (TxIn msgTx))
       (TxOut msgTx)"

text \<open>
  The body of the loop of \<^verbatim>\<open>countP2SHSigOps\<close> for one input: the new value of
  \<^verbatim>\<open>totalSigOps\<close>, or the error returned. \<^verbatim>\<open>uint32(len(...))\<close> keeps the low 32
  bits of the length.
\<close>

definition countP2SHInput :: "Env \<Rightarrow> txStore \<Rightarrow> goint \<Rightarrow> TxIn \<Rightarrow> error + goint" where
  "countP2SHInput env txStore totalSigOps txIn =
     (case txStore (Hash (PreviousOutpoint txIn)) of
        None \<Rightarrow> Inl ErrP2SHMissingInput
      | Some originTx \<Rightarrow>
        (if err originTx \<noteq> None then Inl ErrP2SHMissingInput
         else (case tx originTx of
           None \<Rightarrow> Inl ErrP2SHMissingInput
         | Some originMsgTx \<Rightarrow>
           if Index (PreviousOutpoint txIn) \<ge> (of_nat (length (TxOut originMsgTx)) :: uint32)
           then Inl ErrInputIndexOutOfBounds
           else if \<not> IsPayToScriptHash env
                       (PkScript (TxOut originMsgTx ! unat (Index (PreviousOutpoint txIn))))
           then Inr totalSigOps
           else if sint (totalSigOps + GetPreciseSigOpCount env (SignatureScript txIn)
                           (PkScript (TxOut originMsgTx ! unat (Index (PreviousOutpoint txIn)))) True)
                   < sint totalSigOps
           then Inl ErrP2SHSigOpsOverflow
           else Inr (totalSigOps + GetPreciseSigOpCount env (SignatureScript txIn)
                       (PkScript (TxOut originMsgTx ! unat (Index (PreviousOutpoint txIn)))) True))))"

fun countP2SHInputs :: "Env \<Rightarrow> txStore \<Rightarrow> goint \<Rightarrow> TxIn list \<Rightarrow> error + goint" where
  "countP2SHInputs env txStore totalSigOps [] = Inr totalSigOps"
| "countP2SHInputs env txStore totalSigOps (txIn # rest) =
     (case countP2SHInput env txStore totalSigOps txIn of
        Inl e \<Rightarrow> Inl e
      | Inr totalSigOps' \<Rightarrow> countP2SHInputs env txStore totalSigOps' rest)"

definition countP2SHSigOps :: "Env \<Rightarrow> MsgTx \<Rightarrow> bool \<Rightarrow> txStore \<Rightarrow> error + goint" where
  "countP2SHSigOps env msgTx isCoinBaseTx txStore =
     (if isCoinBaseTx then Inr 0
      else (case TxSha env msgTx of
        Inl e \<Rightarrow> Inl e
      | Inr txHash \<Rightarrow> countP2SHInputs env txStore 0 (TxIn msgTx)))"

subsection \<open>Block sanity\<close>

fun checkDuplicateTxs :: "ShaHash list \<Rightarrow> ShaHash list \<Rightarrow> error option" where
  "checkDuplicateTxs existingTxHashes [] = None"
| "checkDuplicateTxs existingTxHashes (h # rest) =
     (if h \<in> set existingTxHashes then Some ErrDuplicateTx
      else checkDuplicateTxs (h # existingTxHashes) rest)"

fun sanitySigOps :: "Env \<Rightarrow> goint \<Rightarrow> MsgTx list \<Rightarrow> error option" where
  "sanitySigOps env totalSigOps [] = None"
| "sanitySigOps env totalSigOps (msgTx # rest) =
     (if sint (totalSigOps + countSigOps env msgTx) < sint totalSigOps
         \<or> sint (totalSigOps + countSigOps env msgTx) > maxSigOpsPerBlock env
      then Some ErrTooManySigOps
      else sanitySigOps env (totalSigOps + countSigOps env msgTx) rest)"

fun firstError :: "('a \<Rightarrow> error option) \<Rightarrow> 'a list \<Rightarrow> error option" where
  "firstError f [] = None"
| "firstError f (x # xs) = (case f x of Some e \<Rightarrow> Some e | None \<Rightarrow> firstError f xs)"

text \<open>
  \<^verbatim>\<open>checkBlockSanity\<close>. \<^verbatim>\<open>time.Now().Add(time.Hour * 2)\<close> is the clock plus 7200
  seconds; \<^verbatim>\<open>merkles[len(merkles)-1]\<close> panics on an empty slice.
\<close>

definition checkBlockSanity :: "Env \<Rightarrow> Block \<Rightarrow> error option" where
  "checkBlockSanity env block =
     (case checkProofOfWork env block of
        Some e \<Rightarrow> Some e
      | None \<Rightarrow>
        (if Timestamp (Header block) > timeNow env + 7200 then Some ErrTimeTooNew
         else (case Transactions block of
           [] \<Rightarrow> Some ErrNoTransactions
         | coinbaseTx # others \<Rightarrow>
           (if \<not> isCoinBase coinbaseTx then Some ErrFirstNotCoinbase
            else if list_ex isCoinBase others then Some ErrSecondCoinbase
            else (case firstError checkTransactionSanity (Transactions block) of
              Some e \<Rightarrow> Some e
            | None \<Rightarrow>
              (if BuildMerkleTreeStore env block = [] then Some Panic
               else if MerkleRoot (Header block) \<noteq> last (BuildMerkleTreeStore env block)
               then Some ErrBadMerkleRoot
               else (case TxShas env block of
                 Inl e \<Rightarrow> Some e
               | Inr txShas \<Rightarrow>
                 (case checkDuplicateTxs [] txShas of
                    Some e \<Rightarrow> Some e
                  | None \<Rightarrow> sanitySigOps env 0 (Transactions block)))))))))"

subsection \<open>Serialized block height\<close>

text \<open>\<^verbatim>\<open>binary.LittleEndian.Uint32\<close>; it panics (\<open>None\<close>) on fewer than four bytes.\<close>

fun LittleEndianUint32 :: "byte list \<Rightarrow> uint32 option" where
  "LittleEndianUint32 (b0 # b1 # b2 # b3 # rest) =
     Some (or (ucast b0) (or (push_bit 8 (ucast b1))
             (or (push_bit 16 (ucast b2)) (push_bit 24 (ucast b3)))))"
| "LittleEndianUint32 _ = None"

text \<open>
  \<^verbatim>\<open>checkSerializedHeight\<close>: \<^verbatim>\<open>copy(serializedHeightBytes, sigScript[1:4])\<close>
  copies the three bytes at indices 1, 2 and 3 into a zeroed four-byte buffer;
  \<^verbatim>\<open>int64(serializedHeight)\<close> extends the unsigned value.
\<close>

definition checkSerializedHeight :: "MsgTx \<Rightarrow> int64 \<Rightarrow> error option" where
  "checkSerializedHeight coinbaseTx wantHeight =
     (case TxIn coinbaseTx of
        [] \<Rightarrow> Some Panic
      | txIn0 # _ \<Rightarrow>
        (if length (SignatureScript txIn0) < 4 then Some ErrHeightScriptShort
         else (case LittleEndianUint32 (take 3 (drop 1 (SignatureScript txIn0)) @ [0]) of
           None \<Rightarrow> Some Panic
         | Some serializedHeight \<Rightarrow>
             (if (ucast serializedHeight :: int64) \<noteq> wantHeight then Some ErrHeightMismatch
              else None))))"

subsection \<open>BIP0030\<close>

definition isBIP0030Node :: "blockNode \<Rightarrow> bool" where
  "isBIP0030Node node =
     (if height node = 91842 \<and> hash node = block91842Hash then True
      else if height node = 91880 \<and> hash node = block91880Hash then True
      else False)"

definition isTransactionSpent :: "txData \<Rightarrow> bool" where
  "isTransactionSpent txD = list_all (\<lambda>isOutputSpent. isOutputSpent) (spent txD)"

fun examineTxResults :: "txData list \<Rightarrow> error option" where
  "examineTxResults [] = None"
| "examineTxResults (txD # rest) =
     (case err txD of
        None \<Rightarrow> (if \<not> isTransactionSpent txD then Some ErrOverwriteUnspent
                 else examineTxResults rest)
      | Some e \<Rightarrow> (if e = TxShaMissing then examineTxResults rest else Some e))"

text \<open>
  \<^verbatim>\<open>checkBIP0030\<close>, with the calls it makes to the chain layer. A failure of
  \<^verbatim>\<open>block.TxShas()\<close> returns \<^verbatim>\<open>nil\<close>.
\<close>

definition checkBIP0030 :: "Env \<Rightarrow> blockNode \<Rightarrow> Block \<Rightarrow> error option \<times> call list" where
  "checkBIP0030 env node block =
     (case TxShas env block of
        Inl e \<Rightarrow> (None, [])
      | Inr fetchList \<Rightarrow>
        (case fetchTxList env node fetchList of
           Inl e \<Rightarrow> (Some e, [CallFetchTxList fetchList])
         | Inr txResults \<Rightarrow> (examineTxResults txResults, [CallFetchTxList fetchList])))"

subsection \<open>Transaction inputs\<close>

text \<open>
  The store is mutated in place by the Go code, so every function that touches it
  returns the store it leaves behind, also when it returns an error.

  \<open>checkTxIn\<close> is the body of the loop of \<^verbatim>\<open>checkTransactionInputs\<close> for one
  input: the new \<^verbatim>\<open>totalSatoshiIn\<close> or the error, and the store.
  \<^verbatim>\<open>isCoinBase(originTx.tx)\<close> dereferences the pointer and panics on \<^verbatim>\<open>nil\<close>;
  \<^verbatim>\<open>originTx.tx.TxOut[originTxIndex]\<close> panics when the index is past the outputs.
\<close>

definition checkTxIn ::
  "Env \<Rightarrow> int64 \<Rightarrow> int64 \<Rightarrow> TxIn \<Rightarrow> txStore \<Rightarrow> (error + int64) \<times> txStore" where
  "checkTxIn env txHeight totalSatoshiIn txIn txStore =
     (case txStore (Hash (PreviousOutpoint txIn)) of
        None \<Rightarrow> (Inl ErrMissingInput, txStore)
      | Some originTx \<Rightarrow>
        (case tx originTx of
           None \<Rightarrow> (Inl Panic, txStore)
         | Some originMsgTx \<Rightarrow>
           (if isCoinBase originMsgTx
               \<and> sint (txHeight - blockHeight originTx) < sint (coinbaseMaturity env)
            then (Inl ErrImmatureSpend, txStore)
            else if Index (PreviousOutpoint txIn) \<ge> (of_nat (length (spent originTx)) :: uint32)
            then (Inl ErrInputIndexOutOfBounds, txStore)
            else if spent originTx ! unat (Index (PreviousOutpoint txIn))
            then (Inl ErrDoubleSpend, txStore)
            else if unat (Index (PreviousOutpoint txIn)) \<ge> length (TxOut originMsgTx)
            then (Inl Panic, txStore)
            else if sint (Value (TxOut originMsgTx ! unat (Index (PreviousOutpoint txIn)))) < 0
            then (Inl ErrOutputNegative, txStore)
            else if sint (Value (TxOut originMsgTx ! unat (Index (PreviousOutpoint txIn))))
                    > sint maxSatoshi
            then (Inl ErrOutputTooHigh, txStore)
            else if sint (totalSatoshiIn
                          + Value (TxOut originMsgTx ! unat (Index (PreviousOutpoint txIn))))
                      < sint totalSatoshiIn
                    \<or> sint (totalSatoshiIn
                          + Value (TxOut originMsgTx ! unat (Index (PreviousOutpoint txIn))))
                      > sint maxSatoshi
            then (Inl ErrTotalInTooHigh, txStore)
            else (Inr (totalSatoshiIn
                        + Value (TxOut originMsgTx ! unat (Index (PreviousOutpoint txIn)))),
                  txStore(Hash (PreviousOutpoint txIn) \<mapsto>
                    originTx\<lparr>spent :=
                      (spent originTx)[unat (Index (PreviousOutpoint txIn)) := True]\<rparr>)))))"

fun checkTxIns ::
  "Env \<Rightarrow> int64 \<Rightarrow> int64 \<Rightarrow> TxIn list \<Rightarrow> txStore \<Rightarrow> (error + int64) \<times> txStore" where
  "checkTxIns env txHeight totalSatoshiIn [] txStore = (Inr totalSatoshiIn, txStore)"
| "checkTxIns env txHeight totalSatoshiIn (txIn # rest) txStore =
     (case checkTxIn env txHeight totalSatoshiIn txIn txStore of
        (Inl e, txStore') \<Rightarrow> (Inl e, txStore')
      | (Inr totalSatoshiIn', txStore') \<Rightarrow>
          checkTxIns env txHeight totalSatoshiIn' rest txStore')"

text \<open>The sum of the output values of a transaction, as the \<^verbatim>\<open>int64\<close> loops compute it.\<close>

definition sumTxOut :: "TxOut list \<Rightarrow> int64" where
  "sumTxOut outs = foldl (\<lambda>totalSatoshiOut txOut. totalSatoshiOut + Value txOut) 0 outs"

definition checkTransactionInputs ::
  "Env \<Rightarrow> MsgTx \<Rightarrow> int64 \<Rightarrow> txStore \<Rightarrow> (error + int64) \<times> txStore" where
  "checkTransactionInputs env msgTx txHeight txStore =
     (if isCoinBase msgTx then (Inr 0, txStore)
      else (case TxSha env msgTx of
        Inl e \<Rightarrow> (Inl e, txStore)
      | Inr txHash \<Rightarrow>
        (case checkTxIns env txHeight 0 (TxIn msgTx) txStore of
           (Inl e, txStore') \<Rightarrow> (Inl e, txStore')
         | (Inr totalSatoshiIn, txStore') \<Rightarrow>
             (if sint totalSatoshiIn < sint (sumTxOut (TxOut msgTx))
              then (Inl ErrSpendMoreThanInputs, txStore')
              else (Inr (totalSatoshiIn - sumTxOut (TxOut msgTx)), txStore')))))"

subsection \<open>Connecting a block\<close>

text \<open>
  The signature operation count of the transaction at index \<open>i\<close>, as the first loop of
  \<^verbatim>\<open>checkConnectBlock\<close> computes it, and the loop itself.
\<close>

definition txSigOps :: "Env \<Rightarrow> bool \<Rightarrow> txStore \<Rightarrow> nat \<Rightarrow> MsgTx \<Rightarrow> error + goint" where
  "txSigOps env enforceBIP0016 txInputStore i msgTx =
     (if enforceBIP0016 then
        (case countP2SHSigOps env msgTx (i = 0) txInputStore of
           Inl e \<Rightarrow> Inl e
         | Inr numP2SHSigOps \<Rightarrow> Inr (countSigOps env msgTx + numP2SHSigOps))
      else Inr (countSigOps env msgTx))"

fun connectSigOps ::
  "Env \<Rightarrow> bool \<Rightarrow> txStore \<Rightarrow> nat \<Rightarrow> goint \<Rightarrow> MsgTx list \<Rightarrow> error option" where
  "connectSigOps env enforceBIP0016 txInputStore i totalSigOps [] = None"
| "connectSigOps env enforceBIP0016 txInputStore i totalSigOps (msgTx # rest) =
     (case txSigOps env enforceBIP0016 txInputStore i msgTx of
        Inl e \<Rightarrow> Some e
      | Inr numsigOps \<Rightarrow>
          (if sint (totalSigOps + numsigOps) < sint totalSigOps
              \<or> sint (totalSigOps + numsigOps) > maxSigOpsPerBlock env
           then Some ErrTooManySigOps
           else connectSigOps env enforceBIP0016 txInputStore (Suc i)
                  (totalSigOps + numsigOps) rest))"

text \<open>The second loop: the inputs of every transaction, accumulating the fees.\<close>

fun connectFees ::
  "Env \<Rightarrow> int64 \<Rightarrow> int64 \<Rightarrow> MsgTx list \<Rightarrow> txStore \<Rightarrow> (error + int64) \<times> txStore" where
  "connectFees env nodeHeight totalFees [] txStore = (Inr totalFees, txStore)"
| "connectFees env nodeHeight totalFees (msgTx # rest) txStore =
     (case checkTransactionInputs env msgTx nodeHeight txStore of
        (Inl e, txStore') \<Rightarrow> (Inl e, txStore')
      | (Inr txFee, txStore') \<Rightarrow>
          (if sint (totalFees + txFee) < sint totalFees
           then (Inl ErrFeesOverflow, txStore')
           else connectFees env nodeHeight (totalFees + txFee) rest txStore'))"

definition runScripts :: "Env \<Rightarrow> blockNode \<Rightarrow> bool" where
  "runScripts env node =
     (case LatestCheckpoint env of
        None \<Rightarrow> \<not> noVerify env
      | Some checkpoint \<Rightarrow>
          (if sint (height node) \<le> sint (Height checkpoint) then False
           else \<not> noVerify env))"

text \<open>
  The part of \<^verbatim>\<open>checkConnectBlock\<close> that follows the fetch of the input store:
  the verdict, the store as it is left, and whether the script verifier was called.
  \<^verbatim>\<open>transactions[0]\<close> panics on a block without transactions.
\<close>

definition connectWithStore ::
  "Env \<Rightarrow> blockNode \<Rightarrow> Block \<Rightarrow> txStore \<Rightarrow> error option \<times> txStore \<times> call list" where
  "connectWithStore env node block txInputStore =
     (case connectSigOps env (timestamp node > Bip16Activation env) txInputStore 0 0
             (Transactions block) of
        Some e \<Rightarrow> (Some e, txInputStore, [])
      | None \<Rightarrow>
        (case connectFees env (height node) 0 (Transactions block) txInputStore of
           (Inl e, txStore') \<Rightarrow> (Some e, txStore', [])
         | (Inr totalFees, txStore') \<Rightarrow>
           (case Transactions block of
              [] \<Rightarrow> (Some Panic, txStore', [])
            | coinbaseTx # _ \<Rightarrow>
              (if sint (sumTxOut (TxOut coinbaseTx))
                    > sint (calcBlockSubsidy (height node) + totalFees)
               then (Some ErrCoinbasePaysTooMuch, txStore', [])
               else if runScripts env node
               then (checkBlockScripts env block txStore', txStore', [CallCheckBlockScripts])
               else (None, txStore', [])))))"

definition checkConnectBlock :: "Env \<Rightarrow> blockNode \<Rightarrow> Block \<Rightarrow> ConnectResult" where
  "checkConnectBlock env node block =
     (if hash node = GenesisHash env
      then \<lparr>verdict = None, finalStore = None, calls = []\<rparr>
      else (case (if \<not> isBIP0030Node node then checkBIP0030 env node block else (None, [])) of
        (Some e, calls0) \<Rightarrow> \<lparr>verdict = Some e, finalStore = None, calls = calls0\<rparr>
      | (None, calls0) \<Rightarrow>
        (case fetchInputTransactions env node block of
           Inl e \<Rightarrow> \<lparr>verdict = Some e, finalStore = None,
                      calls = calls0 @ [CallFetchInputTransactions]\<rparr>
         | Inr txInputStore \<Rightarrow>
           (case connectWithStore env node block txInputStore of
              (v, txStore', calls1) \<Rightarrow>
                \<lparr>verdict = v, finalStore = Some txStore',
                 calls = calls0 @ [CallFetchInputTransactions] @ calls1\<rparr>))))"

section \<open>Notions used by the statements\<close>

text \<open>
  The running sum of the output values after \<open>k\<close> additions, in \<^verbatim>\<open>int64\<close>
  arithmetic, starting from \<open>tot\<close>.
\<close>

definition runningSum :: "int64 \<Rightarrow> TxOut list \<Rightarrow> nat \<Rightarrow> int64" where
  "runningSum tot outs k = foldl (\<lambda>t txOut. t + Value txOut) tot (take k outs)"

text \<open>
  \<open>spentExtends d d'\<close>: the entry \<open>d'\<close> is \<open>d\<close> with a spent bitmap of the same length
  in which every bit set in \<open>d\<close> is still set. \<open>storeExtends s s'\<close>: the stores have the
  same keys, and every entry of \<open>s'\<close> extends the entry of \<open>s\<close> in this sense.
\<close>

definition spentExtends :: "txData \<Rightarrow> txData \<Rightarrow> bool" where
  "spentExtends d d' \<longleftrightarrow>
     d' = d\<lparr>spent := spent d'\<rparr>
     \<and> length (spent d') = length (spent d)
     \<and> (\<forall>i < length (spent d). spent d ! i \<longrightarrow> spent d' ! i)"

definition storeExtends :: "txStore \<Rightarrow> txStore \<Rightarrow> bool" where
  "storeExtends s s' \<longleftrightarrow>
     (\<forall>h. case s h of
             None \<Rightarrow> s' h = None
           | Some d \<Rightarrow> (\<exists>d'. s' h = Some d' \<and> spentExtends d d'))"

text \<open>
  The pay-to-script-hash count of the transaction at index \<open>k\<close> of a block, when
  \<^verbatim>\<open>countP2SHSigOps\<close> returns one.
\<close>

definition p2shSigOps :: "Env \<Rightarrow> txStore \<Rightarrow> nat \<Rightarrow> MsgTx \<Rightarrow> goint" where
  "p2shSigOps env s k msgTx =
     (case countP2SHSigOps env msgTx (k = 0) s of Inl e \<Rightarrow> 0 | Inr n \<Rightarrow> n)"

subsection \<open>Example data\<close>

text \<open>
  A concrete environment and concrete blocks, on which the theorems are instantiated.
  The collaborators are small stand-ins: the imprecise counter counts the bytes
  \<open>0xAC\<close> of a script, the precise counter charges 20 for every byte of the signature
  script, a script is pay-to-script-hash when it starts with \<open>0xA9\<close>, and the hash of a
  transaction is its lock time. The input store holds one earlier transaction with one
  unspent output of 1000 satoshi.
\<close>

definition prevTx :: MsgTx where
  "prevTx =
     \<lparr>TxVersion = 1,
      TxIn = [\<lparr>PreviousOutpoint = \<lparr>Hash = 0x2222, Index = 0\<rparr>, SignatureScript = [],
               Sequence = 0xFFFFFFFF\<rparr>],
      TxOut = [\<lparr>Value = 1000, PkScript = [0xA9, 0x14, 0x87]\<rparr>],
      LockTime = 0x1111\<rparr>"

definition exampleStore :: txStore where
  "exampleStore =
     [0x1111 \<mapsto> \<lparr>tx = Some prevTx, hash = 0x1111, blockHeight = 1000, spent = [False],
                   err = None\<rparr>]"

definition exampleEnv :: Env where
  "exampleEnv =
     \<lparr>GenesisHash = 0x000000000019d6689c085ae165831e934ff763ae46a2a6c172b3f1b60a8ce26f,
      Bip16Activation = 1333238400,
      MaxBlockPayload = 1000000,
      coinbaseMaturity = 100,
      GetSigOpCount = (\<lambda>script. of_nat (length (filter (\<lambda>b. b = 0xAC) script))),
      GetPreciseSigOpCount = (\<lambda>sigScript pkScript bip16. 20 * of_nat (length sigScript)),
      IsPayToScriptHash = (\<lambda>pkScript. take 1 pkScript = [0xA9]),
      TxSha = (\<lambda>msgTx. Inr (ucast (LockTime msgTx))),
      BlockSha = (\<lambda>block. Inr (ucast (Nonce (Header block)))),
      TxShas = (\<lambda>block. Inr (map (\<lambda>msgTx. ucast (LockTime msgTx)) (Transactions block))),
      CompactToBig = (\<lambda>bits. uint bits),
      ShaHashToBig = (\<lambda>h. uint h),
      powLimit = 0xFFFFFFFF,
      timeNow = 1400000000,
      BuildMerkleTreeStore = (\<lambda>block. map (\<lambda>msgTx. ucast (LockTime msgTx)) (Transactions block)),
      fetchTxList = (\<lambda>node hashes. Inr (map (\<lambda>h. \<lparr>tx = None, hash = h, blockHeight = 0,
                        spent = [], err = Some TxShaMissing\<rparr>) hashes)),
      fetchInputTransactions = (\<lambda>node block. Inr exampleStore),
      LatestCheckpoint = None,
      noVerify = False,
      checkBlockScripts = (\<lambda>block txStore. None)\<rparr>"

text \<open>A coinbase with the given signature script, paying the given amount.\<close>

definition coinbaseOf :: "byte list \<Rightarrow> int64 \<Rightarrow> MsgTx" where
  "coinbaseOf script amount =
     \<lparr>TxVersion = 1,
      TxIn = [\<lparr>PreviousOutpoint = \<lparr>Hash = 0, Index = 0xFFFFFFFF\<rparr>, SignatureScript = script,
               Sequence = 0xFFFFFFFF\<rparr>],
      TxOut = [\<lparr>Value = amount, PkScript = []\<rparr>],
      LockTime = 1\<rparr>"

text \<open>
  A transaction with the given lock time that spends output 0 of \<open>prevTx\<close> with the
  given signature script, and pays 900 satoshi (a fee of 100).
\<close>

definition spendOf :: "uint32 \<Rightarrow> byte list \<Rightarrow> MsgTx" where
  "spendOf lockTime script =
     \<lparr>TxVersion = 1,
      TxIn = [\<lparr>PreviousOutpoint = \<lparr>Hash = 0x1111, Index = 0\<rparr>, SignatureScript = script,
               Sequence = 0xFFFFFFFF\<rparr>],
      TxOut = [\<lparr>Value = 900, PkScript = []\<rparr>],
      LockTime = lockTime\<rparr>"

definition blockOf :: "32 word \<Rightarrow> ShaHash \<Rightarrow> MsgTx list \<Rightarrow> Block" where
  "blockOf version merkleRoot txs =
     \<lparr>Header = \<lparr>Version = version, PrevBlock = 0x3333, MerkleRoot = merkleRoot,
                 Timestamp = 1400000000, Bits = 0x1d00ffff, Nonce = 0\<rparr>,
      Transactions = txs\<rparr>"

definition coinbaseStore :: txStore where
  "coinbaseStore =
     [0x5555 \<mapsto> \<lparr>tx = Some (coinbaseOf [3, 0x65, 0, 0] 5000000000), hash = 0x5555,
                   blockHeight = 101, spent = [False], err = None\<rparr>]"

section \<open>Theorems\<close>

subsection \<open>Addition on \<^verbatim>\<open>int64\<close>\<close>

lemma sint_add_int64:
  "sint (a + b :: int64) = signed_take_bit 63 (sint a + sint b)"
  by (simp add: sint_word_ariths)

lemma sint_add_exact:
  assumes "- (2 ^ 63) \<le> sint a + sint b" "sint a + sint b < 2 ^ 63"
  shows "sint (a + b :: int64) = sint a + sint b"
  using assms by (simp add: sint_add_int64 signed_take_bit_int_eq_self)

lemma signed_take_bit_63_wrap:
  assumes "2 ^ 63 \<le> (k::int)" "k < 2 ^ 64"
  shows "signed_take_bit 63 k = k - 2 ^ 64"
proof -
  have "k + 2 ^ 63 = (k - 2 ^ 63) + 2 ^ 64" by simp
  then have "(k + 2 ^ 63) mod 2 ^ 64 = ((k - 2 ^ 63) + 2 ^ 64) mod 2 ^ 64"
    by (rule arg_cong)
  also have "\<dots> = (k - 2 ^ 63) mod 2 ^ 64"
    by (rule mod_add_self2)
  also have "\<dots> = k - 2 ^ 63"
    using assms by (intro mod_pos_pos_trivial) simp_all
  finally show ?thesis
    by (simp add: signed_take_bit_eq_take_bit_shift take_bit_eq_mod)
qed

lemma sint_add_wrapped:
  assumes "0 \<le> sint a" "0 \<le> sint b" "2 ^ 63 \<le> sint a + sint b"
  shows "sint (a + b :: int64) = sint a + sint b - 2 ^ 64"
proof -
  have "sint a < 2 ^ 63" "sint b < 2 ^ 63"
    using sint_lt [of a] sint_lt [of b] by simp_all
  then have "sint a + sint b < 2 ^ 64" by simp
  then show ?thesis using assms(3) by (simp add: sint_add_int64 signed_take_bit_63_wrap)
qed

lemma sint_maxSatoshi: "sint maxSatoshi = 2100000000000000"
  by (simp add: maxSatoshi_def satoshiPerBitcoin_def)

subsection \<open>Block subsidy\<close>

lemma sint_div_halving:
  assumes h: "0 \<le> sint (ht :: int64)"
  shows "unat (word_of_int (sint ht sdiv subsidyHalvingInterval) :: 64 word)
           = nat (sint ht div 210000)"
proof -
  have q0: "0 \<le> sint ht div 210000" using h by simp
  have "sint ht < 2 ^ 63" using sint_lt [of ht] by simp
  then have q1: "sint ht div 210000 < 2 ^ 64" using h by simp
  have sd: "sint ht sdiv 210000 = sint ht div 210000"
    using h by (simp add: signed_divide_int_def sgn_if)
  show ?thesis
    using q0 q1
    by (simp add: subsidyHalvingInterval_def sd unat_eq_nat_uint uint_word_of_int
        take_bit_int_eq_self)
qed

lemma calcBlockSubsidy_nonneg_height:
  assumes h: "0 \<le> sint (ht :: int64)"
  shows "sint (calcBlockSubsidy ht) = drop_bit (nat (sint ht div 210000)) 5000000000"
  unfolding calcBlockSubsidy_def baseSubsidy_def satoshiPerBitcoin_def
  by (simp add: sint_div_halving [OF h] sint_signed_drop_bit_eq)

lemma calcBlockSubsidy_saturates:
  assumes h: "6930000 \<le> sint (ht :: int64)"
  shows "calcBlockSubsidy ht = 0"
proof -
  have h0: "0 \<le> sint ht" using h by simp
  have "33 \<le> sint ht div 210000" using h by simp
  then have n: "33 \<le> nat (sint ht div 210000)" by simp
  have "(2 :: int) ^ 33 \<le> 2 ^ nat (sint ht div 210000)"
    using n by (rule power_increasing) simp
  then have "(5000000000 :: int) < 2 ^ nat (sint ht div 210000)" by simp
  then have "(5000000000 :: int) div 2 ^ nat (sint ht div 210000) = 0" by simp
  then have "sint (calcBlockSubsidy ht) = 0"
    by (simp add: calcBlockSubsidy_nonneg_height [OF h0] drop_bit_eq_div)
  then show ?thesis by (simp only: signed_eq_0_iff)
qed

text \<open>
  Claim C5. For every height \<open>ht \<ge> 0\<close>, \<open>calcBlockSubsidy ht\<close> is \<open>50 \<times> 10^8\<close>
  shifted right by \<open>ht div 210000\<close> places, that is \<open>50 \<times> 10^8 div 2 ^ (ht div 210000)\<close>.
  The function is total: the shift is defined for every shift count, and from height
  6930000 on (33 halvings) the result is 0. The subsidy is \<open>50 \<times> 10^8\<close> at heights 0
  and 209999, \<open>25 \<times> 10^8\<close> at height 210000 and 0 at height 6930000.
\<close>

theorem calcBlockSubsidy_halving:
  "(0 \<le> sint ht \<longrightarrow>
      sint (calcBlockSubsidy ht) = drop_bit (nat (sint ht div 210000)) (sint baseSubsidy))
   \<and> (0 \<le> sint ht \<longrightarrow>
      sint (calcBlockSubsidy ht) = 5000000000 div 2 ^ nat (sint ht div 210000))
   \<and> (6930000 \<le> sint ht \<longrightarrow> calcBlockSubsidy ht = 0)
   \<and> calcBlockSubsidy 0 = 5000000000
   \<and> calcBlockSubsidy 209999 = 5000000000
   \<and> calcBlockSubsidy 210000 = 2500000000
   \<and> calcBlockSubsidy 6930000 = 0"
proof -
  have b: "sint baseSubsidy = 5000000000"
    by (simp add: baseSubsidy_def satoshiPerBitcoin_def)
  have c: "calcBlockSubsidy 0 = 5000000000" "calcBlockSubsidy 209999 = 5000000000"
    "calcBlockSubsidy 210000 = 2500000000" "calcBlockSubsidy 6930000 = 0"
    by (simp_all add: calcBlockSubsidy_def baseSubsidy_def satoshiPerBitcoin_def
        subsidyHalvingInterval_def signed_divide_int_def)
  show ?thesis
    using calcBlockSubsidy_nonneg_height [of ht] calcBlockSubsidy_saturates [of ht] c
    by (simp add: b drop_bit_eq_div)
qed

theorem calcBlockSubsidy_halving_witness:
  "0 \<le> sint (420000 :: int64) \<and> sint (calcBlockSubsidy 420000) = 1250000000
   \<and> 6930000 \<le> sint (7000000 :: int64) \<and> calcBlockSubsidy 7000000 = 0"
  using calcBlockSubsidy_halving [of 420000] calcBlockSubsidy_halving [of 7000000]
  by simp

subsection \<open>The total of the outputs in the sanity check\<close>

lemma runningSum_0 [simp]: "runningSum tot outs 0 = tot"
  by (simp add: runningSum_def)

lemma runningSum_Cons [simp]:
  "runningSum tot (txOut # rest) (Suc k) = runningSum (tot + Value txOut) rest k"
  by (simp add: runningSum_def)

lemma overflow_test_agrees:
  assumes "0 \<le> sint tot" "0 \<le> sint v"
  shows "sint (tot + v :: int64) < 0 \<longleftrightarrow> sint (tot + v) < sint tot"
proof (cases "sint tot + sint v < 2 ^ 63")
  case True
  then show ?thesis using assms by (simp add: sint_add_exact)
next
  case False
  then have w: "sint (tot + v) = sint tot + sint v - 2 ^ 64"
    using assms by (intro sint_add_wrapped) simp_all
  have "sint v < 2 ^ 63" "sint tot < 2 ^ 63" using sint_lt [of v] sint_lt [of tot] by simp_all
  then show ?thesis using assms w by simp
qed

lemma checkTxOutValues_total:
  assumes "0 \<le> sint tot" "sint tot \<le> sint maxSatoshi"
    "\<forall>txOut \<in> set outs. 0 \<le> sint (Value txOut) \<and> sint (Value txOut) \<le> sint maxSatoshi"
  shows "(checkTxOutValues tot outs = Some ErrTotalOutNegative
          \<or> checkTxOutValues tot outs = Some ErrTotalOutTooHigh)
         \<longleftrightarrow> (\<exists>k < length outs.
                sint (runningSum tot outs (Suc k)) < sint (runningSum tot outs k)
                \<or> sint (runningSum tot outs (Suc k)) > sint maxSatoshi)"
  using assms
proof (induction outs arbitrary: tot)
  case Nil
  then show ?case by simp
next
  case (Cons txOut rest)
  let ?v = "Value txOut"
  have v: "0 \<le> sint ?v" "sint ?v \<le> sint maxSatoshi" using Cons.prems(3) by simp_all
  have ex: "sint (tot + ?v) = sint tot + sint ?v"
    using v Cons.prems(1,2) by (intro sint_add_exact) (simp_all add: sint_maxSatoshi)
  show ?case
  proof (cases "sint (tot + ?v) > sint maxSatoshi")
    case True
    then have "checkTxOutValues tot (txOut # rest) = Some ErrTotalOutTooHigh"
      using v ex Cons.prems(1) by simp
    moreover have "sint (runningSum tot (txOut # rest) (Suc 0)) > sint maxSatoshi"
      using True by simp
    ultimately show ?thesis by auto
  next
    case False
    have nn: "0 \<le> sint (tot + ?v)" using ex v Cons.prems(1) by simp
    have step: "checkTxOutValues tot (txOut # rest) = checkTxOutValues (tot + ?v) rest"
      using v False nn by simp
    have IH: "(checkTxOutValues (tot + ?v) rest = Some ErrTotalOutNegative
          \<or> checkTxOutValues (tot + ?v) rest = Some ErrTotalOutTooHigh)
         \<longleftrightarrow> (\<exists>k < length rest.
                sint (runningSum (tot + ?v) rest (Suc k)) < sint (runningSum (tot + ?v) rest k)
                \<or> sint (runningSum (tot + ?v) rest (Suc k)) > sint maxSatoshi)"
      using Cons.IH [of "tot + ?v"] nn False Cons.prems(3) by simp
    have shift: "(\<exists>k < length (txOut # rest).
                sint (runningSum tot (txOut # rest) (Suc k)) < sint (runningSum tot (txOut # rest) k)
                \<or> sint (runningSum tot (txOut # rest) (Suc k)) > sint maxSatoshi)
        \<longleftrightarrow> (\<exists>k < length rest.
                sint (runningSum (tot + ?v) rest (Suc k)) < sint (runningSum (tot + ?v) rest k)
                \<or> sint (runningSum (tot + ?v) rest (Suc k)) > sint maxSatoshi)"
      (is "?L \<longleftrightarrow> ?R")
    proof
      assume ?L
      then obtain k where k: "k < length (txOut # rest)"
        "sint (runningSum tot (txOut # rest) (Suc k)) < sint (runningSum tot (txOut # rest) k)
          \<or> sint (runningSum tot (txOut # rest) (Suc k)) > sint maxSatoshi" by blast
      show ?R
      proof (cases k)
        case 0
        then show ?thesis using k(2) False ex v by simp
      next
        case (Suc k')
        then show ?thesis using k by auto
      qed
    next
      assume ?R
      then obtain k where "k < length rest"
        "sint (runningSum (tot + ?v) rest (Suc k)) < sint (runningSum (tot + ?v) rest k)
          \<or> sint (runningSum (tot + ?v) rest (Suc k)) > sint maxSatoshi" by blast
      then have "Suc k < length (txOut # rest)"
        "sint (runningSum tot (txOut # rest) (Suc (Suc k))) < sint (runningSum tot (txOut # rest) (Suc k))
          \<or> sint (runningSum tot (txOut # rest) (Suc (Suc k))) > sint maxSatoshi"
        by simp_all
      then show ?L by blast
    qed
    show ?thesis using step IH shift by simp
  qed
qed

lemma sum_sint_nonneg:
  assumes "\<forall>txOut \<in> set outs. 0 \<le> sint (Value txOut) \<and> sint (Value txOut) \<le> sint maxSatoshi"
  shows "0 \<le> (\<Sum>txOut\<leftarrow>outs. sint (Value txOut))"
  using assms by (intro sum_list_nonneg) auto

lemma checkTxOutValues_exact:
  assumes "0 \<le> sint tot" "sint tot \<le> sint maxSatoshi"
    "\<forall>txOut \<in> set outs. 0 \<le> sint (Value txOut) \<and> sint (Value txOut) \<le> sint maxSatoshi"
  shows "(checkTxOutValues tot outs = Some ErrTotalOutNegative
          \<or> checkTxOutValues tot outs = Some ErrTotalOutTooHigh)
         \<longleftrightarrow> sint tot + (\<Sum>txOut\<leftarrow>outs. sint (Value txOut)) > sint maxSatoshi"
  using assms
proof (induction outs arbitrary: tot)
  case Nil
  then show ?case by simp
next
  case (Cons txOut rest)
  let ?v = "Value txOut"
  have v: "0 \<le> sint ?v" "sint ?v \<le> sint maxSatoshi" using Cons.prems(3) by simp_all
  have r: "0 \<le> (\<Sum>x\<leftarrow>rest. sint (Value x))"
    using Cons.prems(3) by (intro sum_sint_nonneg) simp
  have ex: "sint (tot + ?v) = sint tot + sint ?v"
    using v Cons.prems(1,2) by (intro sint_add_exact) (simp_all add: sint_maxSatoshi)
  show ?case
  proof (cases "sint (tot + ?v) > sint maxSatoshi")
    case True
    then have "checkTxOutValues tot (txOut # rest) = Some ErrTotalOutTooHigh"
      using v ex Cons.prems(1) by simp
    then show ?thesis using True ex r by simp
  next
    case False
    have nn: "0 \<le> sint (tot + ?v)" using ex v Cons.prems(1) by simp
    have step: "checkTxOutValues tot (txOut # rest) = checkTxOutValues (tot + ?v) rest"
      using v False nn by simp
    show ?thesis
      using Cons.IH [of "tot + ?v"] nn False Cons.prems(3) step ex by (simp add: add.assoc)
  qed
qed

lemma checkDuplicateInputs_cases:
  "checkDuplicateInputs existing ins = None
   \<or> checkDuplicateInputs existing ins = Some ErrDuplicateOutpoint"
  by (induction ins arbitrary: existing) auto

lemma checkTransactionSanity_total_iff:
  assumes "TxIn msgTx \<noteq> []"
  shows "(checkTransactionSanity msgTx = Some ErrTotalOutNegative
          \<or> checkTransactionSanity msgTx = Some ErrTotalOutTooHigh)
     \<longleftrightarrow> (checkTxOutValues 0 (TxOut msgTx) = Some ErrTotalOutNegative
          \<or> checkTxOutValues 0 (TxOut msgTx) = Some ErrTotalOutTooHigh)"
proof (cases "TxOut msgTx = []")
  case True
  then show ?thesis using assms by (simp add: checkTransactionSanity_def)
next
  case False
  show ?thesis
  proof (cases "checkTxOutValues 0 (TxOut msgTx)")
    case (Some e)
    then show ?thesis using assms False by (simp add: checkTransactionSanity_def)
  next
    case None
    then show ?thesis
      using assms False checkDuplicateInputs_cases [of "[]" "TxIn msgTx"]
      by (auto simp: checkTransactionSanity_def)
  qed
qed

text \<open>
  Claim C3. Take a transaction whose outputs each pass the per-output range check
  (\<open>0 \<le> value \<le> maxSatoshi\<close>). The loop over the outputs returns one of the two
  errors of the total-output check exactly when the signed 64-bit running sum after some
  addition is less than the sum before it or exceeds \<open>maxSatoshi\<close>; so does
  \<^verbatim>\<open>checkTransactionSanity\<close> for a transaction that has an input (one without inputs
  is rejected before its outputs are read), and this is exactly when the sum of the
  values exceeds \<open>maxSatoshi\<close>. The code tests the new sum against 0; on the sums the
  loop reaches (both operands non-negative) that test and the test against the previous
  sum agree.
\<close>

theorem total_output_check:
  assumes "\<forall>txOut \<in> set (TxOut msgTx).
             0 \<le> sint (Value txOut) \<and> sint (Value txOut) \<le> sint maxSatoshi"
  shows "((checkTxOutValues 0 (TxOut msgTx) = Some ErrTotalOutNegative
            \<or> checkTxOutValues 0 (TxOut msgTx) = Some ErrTotalOutTooHigh)
          \<longleftrightarrow> (\<exists>k < length (TxOut msgTx).
                sint (runningSum 0 (TxOut msgTx) (Suc k)) < sint (runningSum 0 (TxOut msgTx) k)
                \<or> sint (runningSum 0 (TxOut msgTx) (Suc k)) > sint maxSatoshi))
     \<and> (TxIn msgTx \<noteq> [] \<longrightarrow>
          ((checkTransactionSanity msgTx = Some ErrTotalOutNegative
            \<or> checkTransactionSanity msgTx = Some ErrTotalOutTooHigh)
          \<longleftrightarrow> (\<exists>k < length (TxOut msgTx).
                sint (runningSum 0 (TxOut msgTx) (Suc k)) < sint (runningSum 0 (TxOut msgTx) k)
                \<or> sint (runningSum 0 (TxOut msgTx) (Suc k)) > sint maxSatoshi)))
     \<and> (TxIn msgTx \<noteq> [] \<longrightarrow>
          ((checkTransactionSanity msgTx = Some ErrTotalOutNegative
            \<or> checkTransactionSanity msgTx = Some ErrTotalOutTooHigh)
          \<longleftrightarrow> (\<Sum>txOut\<leftarrow>TxOut msgTx. sint (Value txOut)) > sint maxSatoshi))
     \<and> (\<forall>tot v :: int64. 0 \<le> sint tot \<and> 0 \<le> sint v \<longrightarrow>
           (sint (tot + v) < 0 \<longleftrightarrow> sint (tot + v) < sint tot))"
proof -
  have z: "0 \<le> sint (0 :: int64)" "sint (0 :: int64) \<le> sint maxSatoshi"
    by (simp_all add: sint_maxSatoshi)
  note a = checkTxOutValues_total [OF z assms]
  note b = checkTxOutValues_exact [OF z assms]
  show ?thesis
    using a b checkTransactionSanity_total_iff [of msgTx] overflow_test_agrees
    by simp
qed

theorem total_output_check_witness:
  "list_all (\<lambda>txOut. 0 \<le> sint (Value txOut) \<and> sint (Value txOut) \<le> sint maxSatoshi)
     [\<lparr>Value = 2100000000000000, PkScript = []\<rparr>, \<lparr>Value = 1, PkScript = []\<rparr>]
   \<and> checkTransactionSanity
        \<lparr>TxVersion = 1,
         TxIn = [\<lparr>PreviousOutpoint = \<lparr>Hash = 7, Index = 0\<rparr>, SignatureScript = [],
                  Sequence = 0\<rparr>],
         TxOut = [\<lparr>Value = 2100000000000000, PkScript = []\<rparr>, \<lparr>Value = 1, PkScript = []\<rparr>],
         LockTime = 0\<rparr> = Some ErrTotalOutTooHigh
   \<and> sint (runningSum 0
         [\<lparr>Value = 2100000000000000, PkScript = []\<rparr>, \<lparr>Value = 1, PkScript = []\<rparr>] 2)
       > sint maxSatoshi"
  using total_output_check
    [of "\<lparr>TxVersion = 1,
         TxIn = [\<lparr>PreviousOutpoint = \<lparr>Hash = 7, Index = 0\<rparr>, SignatureScript = [],
                  Sequence = 0\<rparr>],
         TxOut = [\<lparr>Value = 2100000000000000, PkScript = []\<rparr>, \<lparr>Value = 1, PkScript = []\<rparr>],
         LockTime = 0\<rparr>"]
  by (simp add: sint_maxSatoshi checkTransactionSanity_def runningSum_def)

subsection \<open>A failure to list the transaction hashes\<close>

lemma connectWithStore_calls:
  "connectWithStore env node block txInputStore = (v, txStore', cs)
     \<Longrightarrow> c \<in> set cs \<Longrightarrow> c = CallCheckBlockScripts"
  by (auto simp: connectWithStore_def split: option.splits sum.splits prod.splits list.splits
      if_splits)

text \<open>
  Claim C10. When \<^verbatim>\<open>block.TxShas()\<close> fails, \<^verbatim>\<open>checkBIP0030\<close> returns
  \<^verbatim>\<open>nil\<close> and has fetched nothing: the failure is not propagated and cannot reject
  the block. In \<^verbatim>\<open>checkConnectBlock\<close> the transaction list is then never fetched,
  so the duplicate-transaction rule is not applied.
\<close>

theorem checkBIP0030_swallows_hash_failure:
  assumes "TxShas env block = Inl e"
  shows "checkBIP0030 env node block = (None, [])
     \<and> (\<forall>fetchList. CallFetchTxList fetchList
            \<notin> set (calls (checkConnectBlock env node block)))"
proof -
  have a: "checkBIP0030 env node block = (None, [])"
    using assms by (simp add: checkBIP0030_def)
  have "CallFetchTxList fetchList \<notin> set (calls (checkConnectBlock env node block))"
    for fetchList
    using a
    by (auto simp: checkConnectBlock_def split: sum.splits prod.splits
        dest: connectWithStore_calls)
  then show ?thesis using a by simp
qed

theorem checkBIP0030_swallows_hash_failure_witness:
  "TxShas (exampleEnv\<lparr>TxShas := \<lambda>block. Inl (ExtError 1)\<rparr>)
       (blockOf 1 1 [coinbaseOf [3, 0x50, 0x34, 0x03] 2500000000]) = Inl (ExtError 1)
   \<and> checkBIP0030 (exampleEnv\<lparr>TxShas := \<lambda>block. Inl (ExtError 1)\<rparr>)
        \<lparr>hash = 0x4444, height = 210000, timestamp = 1300000000\<rparr>
        (blockOf 1 1 [coinbaseOf [3, 0x50, 0x34, 0x03] 2500000000]) = (None, [])"
  using checkBIP0030_swallows_hash_failure
    [of "exampleEnv\<lparr>TxShas := \<lambda>block. Inl (ExtError 1)\<rparr>"
        "blockOf 1 1 [coinbaseOf [3, 0x50, 0x34, 0x03] 2500000000]" "ExtError 1"
        "\<lparr>hash = 0x4444, height = 210000, timestamp = 1300000000\<rparr>"]
  by simp

subsection \<open>The genesis node\<close>

text \<open>
  Claim C8. On a node whose hash is the genesis hash, \<^verbatim>\<open>checkConnectBlock\<close>
  returns success for every block and every environment, without any call to the chain
  layer or to the script verifier and without an input store: no BIP0030 check, no
  fetch, no other check.
\<close>

theorem genesis_short_circuit:
  assumes "hash node = GenesisHash env"
  shows "checkConnectBlock env node block = \<lparr>verdict = None, finalStore = None, calls = []\<rparr>"
  using assms by (simp add: checkConnectBlock_def)

theorem genesis_short_circuit_witness:
  "hash \<lparr>hash = 0x000000000019d6689c085ae165831e934ff763ae46a2a6c172b3f1b60a8ce26f,
         height = 0, timestamp = 1231006505\<rparr>
     = GenesisHash
         (exampleEnv\<lparr>fetchTxList := \<lambda>node hashes. Inl (ExtError 1),
                     fetchInputTransactions := \<lambda>node block. Inl (ExtError 2)\<rparr>)
   \<and> Transactions (blockOf 1 0 []) = []
   \<and> checkConnectBlock
        (exampleEnv\<lparr>fetchTxList := \<lambda>node hashes. Inl (ExtError 1),
                    fetchInputTransactions := \<lambda>node block. Inl (ExtError 2)\<rparr>)
        \<lparr>hash = 0x000000000019d6689c085ae165831e934ff763ae46a2a6c172b3f1b60a8ce26f,
         height = 0, timestamp = 1231006505\<rparr>
        (blockOf 1 0 [])
     = \<lparr>verdict = None, finalStore = None, calls = []\<rparr>"
  using genesis_short_circuit
    [of "\<lparr>hash = 0x000000000019d6689c085ae165831e934ff763ae46a2a6c172b3f1b60a8ce26f,
          height = 0, timestamp = 1231006505\<rparr>"
        "exampleEnv\<lparr>fetchTxList := \<lambda>node hashes. Inl (ExtError 1),
                    fetchInputTransactions := \<lambda>node block. Inl (ExtError 2)\<rparr>"
        "blockOf 1 0 []"]
  by (simp add: exampleEnv_def blockOf_def)

subsection \<open>The store only gains spent bits\<close>

lemma spentExtends_refl: "spentExtends d d"
  by (simp add: spentExtends_def)

lemma spentExtends_trans:
  "spentExtends a b \<Longrightarrow> spentExtends b c \<Longrightarrow> spentExtends a c"
  unfolding spentExtends_def
  by (metis (no_types, lifting) txData.surjective txData.update_convs(4))

lemma spentExtends_update:
  "spentExtends d (d\<lparr>spent := (spent d)[i := True]\<rparr>)"
proof (cases "i < length (spent d)")
  case True
  then show ?thesis by (auto simp: spentExtends_def nth_list_update)
next
  case False
  then show ?thesis by (simp add: spentExtends_def)
qed

lemma storeExtendsD_None:
  assumes "storeExtends a b" "a h = None"
  shows "b h = None"
proof -
  have "case a h of None \<Rightarrow> b h = None
        | Some d \<Rightarrow> (\<exists>d'. b h = Some d' \<and> spentExtends d d')"
    using assms(1) unfolding storeExtends_def by (rule spec)
  then show ?thesis using assms(2) by simp
qed

lemma storeExtendsD_Some:
  assumes "storeExtends a b" "a h = Some d"
  shows "\<exists>d'. b h = Some d' \<and> spentExtends d d'"
proof -
  have "case a h of None \<Rightarrow> b h = None
        | Some d \<Rightarrow> (\<exists>d'. b h = Some d' \<and> spentExtends d d')"
    using assms(1) unfolding storeExtends_def by (rule spec)
  then show ?thesis using assms(2) by simp
qed

lemma storeExtends_refl: "storeExtends s s"
  by (auto simp: storeExtends_def spentExtends_refl split: option.splits)

lemma storeExtends_trans:
  assumes "storeExtends a b" "storeExtends b c"
  shows "storeExtends a c"
  unfolding storeExtends_def
proof
  fix h
  show "case a h of None \<Rightarrow> c h = None | Some d \<Rightarrow> \<exists>d'. c h = Some d' \<and> spentExtends d d'"
  proof (cases "a h")
    case None
    then have "b h = None" using assms(1) by (rule storeExtendsD_None [rotated])
    then have "c h = None" using assms(2) by (rule storeExtendsD_None [rotated])
    then show ?thesis using None by simp
  next
    case (Some d)
    then obtain d1 where d1: "b h = Some d1" "spentExtends d d1"
      using storeExtendsD_Some [OF assms(1)] by blast
    then obtain d2 where d2: "c h = Some d2" "spentExtends d1 d2"
      using storeExtendsD_Some [OF assms(2)] by blast
    show ?thesis using Some d1 d2 spentExtends_trans by auto
  qed
qed

lemma storeExtends_upd:
  assumes "s k = Some d"
  shows "storeExtends s (s(k \<mapsto> d\<lparr>spent := (spent d)[i := True]\<rparr>))"
  using assms
  by (auto simp: storeExtends_def spentExtends_refl spentExtends_update split: option.splits)

lemma checkTxIn_store:
  "snd (checkTxIn env txHeight tot txIn s) = s
   \<or> (\<exists>d. s (Hash (PreviousOutpoint txIn)) = Some d
         \<and> snd (checkTxIn env txHeight tot txIn s)
             = s(Hash (PreviousOutpoint txIn) \<mapsto>
                   d\<lparr>spent := (spent d)[unat (Index (PreviousOutpoint txIn)) := True]\<rparr>))"
  by (simp add: checkTxIn_def split: option.splits)

lemma checkTxIn_extends: "storeExtends s (snd (checkTxIn env txHeight tot txIn s))"
  using checkTxIn_store [of env txHeight tot txIn s]
  by (auto simp: storeExtends_refl storeExtends_upd)

lemma checkTxIns_extends: "storeExtends s (snd (checkTxIns env txHeight tot ins s))"
proof (induction ins arbitrary: tot s)
  case Nil
  then show ?case by (simp add: storeExtends_refl)
next
  case (Cons txIn rest)
  obtain r s1 where c: "checkTxIn env txHeight tot txIn s = (r, s1)" by force
  have e1: "storeExtends s s1" using checkTxIn_extends [of s env txHeight tot txIn] c by simp
  show ?case
  proof (cases r)
    case (Inl e)
    then show ?thesis using c e1 by simp
  next
    case (Inr tot')
    then show ?thesis
      using c e1 Cons.IH [of s1 tot'] storeExtends_trans by auto
  qed
qed

lemma checkTransactionInputs_extends:
  "storeExtends s (snd (checkTransactionInputs env msgTx txHeight s))"
  using checkTxIns_extends [of s env txHeight 0 "TxIn msgTx"]
  by (auto simp: checkTransactionInputs_def storeExtends_refl split: sum.splits prod.splits)

lemma connectFees_extends:
  "storeExtends s (snd (connectFees env nodeHeight totalFees txs s))"
proof (induction txs arbitrary: totalFees s)
  case Nil
  then show ?case by (simp add: storeExtends_refl)
next
  case (Cons msgTx rest)
  obtain r s1 where c: "checkTransactionInputs env msgTx nodeHeight s = (r, s1)" by force
  have e1: "storeExtends s s1"
    using checkTransactionInputs_extends [of s env msgTx nodeHeight] c by simp
  show ?case
  proof (cases r)
    case (Inl e)
    then show ?thesis using c e1 by simp
  next
    case (Inr txFee)
    then show ?thesis
      using c e1 Cons.IH [of s1 "totalFees + txFee"] storeExtends_trans by auto
  qed
qed

lemma connectWithStore_extends:
  "storeExtends s (fst (snd (connectWithStore env node block s)))"
  using connectFees_extends [of s env "height node" 0 "Transactions block"]
  by (auto simp: connectWithStore_def storeExtends_refl
      split: option.splits sum.splits prod.splits list.splits)

subsection \<open>Double spends\<close>

lemma less_of_nat_uint32:
  assumes "\<not> (of_nat n :: uint32) \<le> i"
  shows "unat i < n"
proof -
  have "i < (of_nat n :: uint32)" using assms by simp
  then have "unat i < unat (of_nat n :: uint32)" by (simp add: word_less_nat_alt)
  also have "\<dots> \<le> n" by (simp add: unat_of_nat)
  finally show ?thesis .
qed

text \<open>What a successful step of the input loop tells about the input and the store.\<close>

lemma checkTxIn_Inr:
  assumes "checkTxIn env txHeight tot txIn s = (Inr tot', s')"
  shows "\<exists>d otx. s (Hash (PreviousOutpoint txIn)) = Some d \<and> tx d = Some otx
           \<and> \<not> (isCoinBase otx \<and> sint (txHeight - blockHeight d) < sint (coinbaseMaturity env))
           \<and> \<not> (of_nat (length (spent d)) :: uint32) \<le> Index (PreviousOutpoint txIn)
           \<and> unat (Index (PreviousOutpoint txIn)) < length (spent d)
           \<and> \<not> spent d ! unat (Index (PreviousOutpoint txIn))
           \<and> s' = s(Hash (PreviousOutpoint txIn) \<mapsto>
                   d\<lparr>spent := (spent d)[unat (Index (PreviousOutpoint txIn)) := True]\<rparr>)"
  using assms
  by (auto simp: checkTxIn_def less_of_nat_uint32 split: option.splits if_splits)

lemma checkTxIn_spent:
  assumes "s (Hash (PreviousOutpoint txIn)) = Some d" "tx d = Some otx"
    "\<not> (isCoinBase otx \<and> sint (txHeight - blockHeight d) < sint (coinbaseMaturity env))"
    "\<not> (of_nat (length (spent d)) :: uint32) \<le> Index (PreviousOutpoint txIn)"
    "spent d ! unat (Index (PreviousOutpoint txIn))"
  shows "checkTxIn env txHeight tot txIn s = (Inl ErrDoubleSpend, s)"
  using assms by (simp add: checkTxIn_def)

lemma checkTxIn_spent_rejects:
  assumes "s (Hash (PreviousOutpoint txIn)) = Some d"
    "unat (Index (PreviousOutpoint txIn)) < length (spent d)"
    "spent d ! unat (Index (PreviousOutpoint txIn))"
  shows "\<exists>e. fst (checkTxIn env txHeight tot txIn s) = Inl e"
  using assms by (simp add: checkTxIn_def split: option.splits)

lemma spentExtends_bit:
  assumes "spentExtends d d'" "i < length (spent d)" "spent d ! i"
  shows "i < length (spent d') \<and> spent d' ! i"
  using assms by (simp add: spentExtends_def)

text \<open>An input that refers to a spent output makes the loop fail, wherever it stands.\<close>

lemma checkTxIns_spent_rejects:
  assumes "txIn \<in> set ins" "s (Hash (PreviousOutpoint txIn)) = Some d"
    "unat (Index (PreviousOutpoint txIn)) < length (spent d)"
    "spent d ! unat (Index (PreviousOutpoint txIn))"
  shows "\<exists>e. fst (checkTxIns env txHeight tot ins s) = Inl e"
  using assms
proof (induction ins arbitrary: tot s d)
  case Nil
  then show ?case by simp
next
  case (Cons a rest)
  obtain r s1 where c: "checkTxIn env txHeight tot a s = (r, s1)" by force
  show ?case
  proof (cases r)
    case (Inl e)
    then show ?thesis using c by simp
  next
    case (Inr tot')
    have ne: "a \<noteq> txIn"
    proof
      assume "a = txIn"
      then have "\<exists>e. fst (checkTxIn env txHeight tot a s) = Inl e"
        using checkTxIn_spent_rejects Cons.prems by blast
      then show False using c Inr by simp
    qed
    then have mem: "txIn \<in> set rest" using Cons.prems(1) by auto
    have "storeExtends s s1" using checkTxIn_extends [of s env txHeight tot a] c by simp
    then obtain d1 where d1: "s1 (Hash (PreviousOutpoint txIn)) = Some d1" "spentExtends d d1"
      using storeExtendsD_Some Cons.prems(2) by blast
    have b: "unat (Index (PreviousOutpoint txIn)) < length (spent d1)"
         "spent d1 ! unat (Index (PreviousOutpoint txIn))"
      using spentExtends_bit [OF d1(2) Cons.prems(3) Cons.prems(4)] by simp_all
    have "\<exists>e. fst (checkTxIns env txHeight tot' rest s1) = Inl e"
      using Cons.IH [of s1 d1 tot'] mem d1(1) b by blast
    then show ?thesis using c Inr by simp
  qed
qed

text \<open>After a successful loop, the output of every input is marked spent.\<close>

lemma checkTxIns_marks:
  assumes "checkTxIns env txHeight tot ins s = (Inr tot', s')" "txIn \<in> set ins"
  shows "\<exists>d d' otx. s (Hash (PreviousOutpoint txIn)) = Some d
           \<and> s' (Hash (PreviousOutpoint txIn)) = Some d' \<and> spentExtends d d'
           \<and> tx d = Some otx
           \<and> \<not> (isCoinBase otx \<and> sint (txHeight - blockHeight d) < sint (coinbaseMaturity env))
           \<and> \<not> (of_nat (length (spent d)) :: uint32) \<le> Index (PreviousOutpoint txIn)
           \<and> unat (Index (PreviousOutpoint txIn)) < length (spent d')
           \<and> spent d' ! unat (Index (PreviousOutpoint txIn))"
  using assms
proof (induction ins arbitrary: tot s)
  case Nil
  then show ?case by simp
next
  case (Cons a rest)
  obtain r s1 where c: "checkTxIn env txHeight tot a s = (r, s1)" by force
  then obtain tot1 where r: "r = Inr tot1" using Cons.prems(1) by (cases r) auto
  have rest: "checkTxIns env txHeight tot1 rest s1 = (Inr tot', s')"
    using Cons.prems(1) c r by simp
  have e1: "storeExtends s s1" using checkTxIn_extends [of s env txHeight tot a] c by simp
  have e2: "storeExtends s1 s'" using checkTxIns_extends [of s1 env txHeight tot1 rest] rest by simp
  show ?case
  proof (cases "txIn = a")
    case True
    obtain d otx where d: "s (Hash (PreviousOutpoint a)) = Some d" "tx d = Some otx"
      "\<not> (isCoinBase otx \<and> sint (txHeight - blockHeight d) < sint (coinbaseMaturity env))"
      "\<not> (of_nat (length (spent d)) :: uint32) \<le> Index (PreviousOutpoint a)"
      "unat (Index (PreviousOutpoint a)) < length (spent d)"
      "s1 = s(Hash (PreviousOutpoint a) \<mapsto>
                   d\<lparr>spent := (spent d)[unat (Index (PreviousOutpoint a)) := True]\<rparr>)"
      using checkTxIn_Inr [OF c [unfolded r]] by blast
    let ?d1 = "d\<lparr>spent := (spent d)[unat (Index (PreviousOutpoint a)) := True]\<rparr>"
    have s1: "s1 (Hash (PreviousOutpoint a)) = Some ?d1" using d(6) by simp
    have bit1: "unat (Index (PreviousOutpoint a)) < length (spent ?d1)"
      "spent ?d1 ! unat (Index (PreviousOutpoint a))"
      using d(5) by simp_all
    obtain d' where d': "s' (Hash (PreviousOutpoint a)) = Some d'" "spentExtends ?d1 d'"
      using storeExtendsD_Some [OF e2 s1] by blast
    have bit': "unat (Index (PreviousOutpoint a)) < length (spent d') \<and>
      spent d' ! unat (Index (PreviousOutpoint a))"
      using spentExtends_bit [OF d'(2) bit1] .
    have "spentExtends d d'"
      using spentExtends_trans [OF spentExtends_update d'(2)] .
    then show ?thesis using True d d' bit' by blast
  next
    case False
    then have mem: "txIn \<in> set rest" using Cons.prems(2) by simp
    obtain d1 d' otx where i: "s1 (Hash (PreviousOutpoint txIn)) = Some d1"
      "s' (Hash (PreviousOutpoint txIn)) = Some d'" "spentExtends d1 d'"
      "tx d1 = Some otx"
      "\<not> (isCoinBase otx \<and> sint (txHeight - blockHeight d1) < sint (coinbaseMaturity env))"
      "\<not> (of_nat (length (spent d1)) :: uint32) \<le> Index (PreviousOutpoint txIn)"
      "unat (Index (PreviousOutpoint txIn)) < length (spent d')"
      "spent d' ! unat (Index (PreviousOutpoint txIn))"
      using Cons.IH [OF rest mem] by blast
    obtain d where d: "s (Hash (PreviousOutpoint txIn)) = Some d"
    proof (cases "s (Hash (PreviousOutpoint txIn))")
      case None
      then show ?thesis using storeExtendsD_None [OF e1] i(1) by simp
    next
      case (Some x)
      then show ?thesis using that by simp
    qed
    obtain dd where dd: "s1 (Hash (PreviousOutpoint txIn)) = Some dd" "spentExtends d dd"
      using storeExtendsD_Some [OF e1 d] by blast
    then have eq: "dd = d1" using i(1) by simp
    have f: "tx d = tx d1" "blockHeight d = blockHeight d1" "length (spent d) = length (spent d1)"
      using dd(2) eq unfolding spentExtends_def
      by (metis txData.select_convs(1) txData.surjective txData.update_convs(4),
          metis txData.select_convs(3) txData.surjective txData.update_convs(4), simp)
    have "spentExtends d d'" using spentExtends_trans [OF dd(2) [unfolded eq] i(3)] .
    then show ?thesis using d i f by auto
  qed
qed

lemma spentExtends_fields:
  assumes "spentExtends d d'"
  shows "tx d' = tx d" "blockHeight d' = blockHeight d" "err d' = err d"
    "length (spent d') = length (spent d)"
proof -
  have e: "d' = d\<lparr>spent := spent d'\<rparr>" using assms by (simp add: spentExtends_def)
  have "tx d' = tx (d\<lparr>spent := spent d'\<rparr>)" using e by simp
  then show "tx d' = tx d" by simp
  have "blockHeight d' = blockHeight (d\<lparr>spent := spent d'\<rparr>)" using e by simp
  then show "blockHeight d' = blockHeight d" by simp
  have "err d' = err (d\<lparr>spent := spent d'\<rparr>)" using e by simp
  then show "err d' = err d" by simp
  show "length (spent d') = length (spent d)" using assms by (simp add: spentExtends_def)
qed

lemma checkTransactionInputs_Inr:
  assumes "checkTransactionInputs env msgTx txHeight s = (Inr fee, s')" "\<not> isCoinBase msgTx"
  shows "\<exists>tot. checkTxIns env txHeight 0 (TxIn msgTx) s = (Inr tot, s')"
  using assms
  by (auto simp: checkTransactionInputs_def split: sum.splits prod.splits if_splits)

lemma checkTransactionInputs_spent_rejects:
  assumes "\<not> isCoinBase msgTx" "txIn \<in> set (TxIn msgTx)"
    "s (Hash (PreviousOutpoint txIn)) = Some d"
    "unat (Index (PreviousOutpoint txIn)) < length (spent d)"
    "spent d ! unat (Index (PreviousOutpoint txIn))"
  shows "\<exists>e. fst (checkTransactionInputs env msgTx txHeight s) = Inl e"
proof -
  obtain e where "fst (checkTxIns env txHeight 0 (TxIn msgTx) s) = Inl e"
    using checkTxIns_spent_rejects [of txIn "TxIn msgTx" s d env txHeight 0] assms(2-5)
    by blast
  then show ?thesis
    using assms(1)
    by (cases "checkTxIns env txHeight 0 (TxIn msgTx) s")
       (auto simp: checkTransactionInputs_def split: sum.splits)
qed

lemma second_spend_state:
  assumes "checkTransactionInputs env tx1 txHeight s = (Inr fee1, s1)" "\<not> isCoinBase tx1"
    "txIn1 \<in> set (TxIn tx1)" "storeExtends s1 s2"
  shows "\<exists>d2 otx. s2 (Hash (PreviousOutpoint txIn1)) = Some d2 \<and> tx d2 = Some otx
           \<and> \<not> (isCoinBase otx \<and> sint (txHeight - blockHeight d2) < sint (coinbaseMaturity env))
           \<and> \<not> (of_nat (length (spent d2)) :: uint32) \<le> Index (PreviousOutpoint txIn1)
           \<and> unat (Index (PreviousOutpoint txIn1)) < length (spent d2)
           \<and> spent d2 ! unat (Index (PreviousOutpoint txIn1))"
proof -
  obtain tot where t: "checkTxIns env txHeight 0 (TxIn tx1) s = (Inr tot, s1)"
    using checkTransactionInputs_Inr [OF assms(1,2)] by blast
  obtain d d' otx where m: "s (Hash (PreviousOutpoint txIn1)) = Some d"
      "s1 (Hash (PreviousOutpoint txIn1)) = Some d'" "spentExtends d d'"
      "tx d = Some otx"
      "\<not> (isCoinBase otx \<and> sint (txHeight - blockHeight d) < sint (coinbaseMaturity env))"
      "\<not> (of_nat (length (spent d)) :: uint32) \<le> Index (PreviousOutpoint txIn1)"
      "unat (Index (PreviousOutpoint txIn1)) < length (spent d')"
      "spent d' ! unat (Index (PreviousOutpoint txIn1))"
    using checkTxIns_marks [OF t assms(3)] by blast
  obtain d2 where d2: "s2 (Hash (PreviousOutpoint txIn1)) = Some d2" "spentExtends d' d2"
    using storeExtendsD_Some [OF assms(4) m(2)] by blast
  have f1: "tx d' = tx d" "blockHeight d' = blockHeight d" "length (spent d') = length (spent d)"
    using spentExtends_fields [OF m(3)] by simp_all
  have f2: "tx d2 = tx d'" "blockHeight d2 = blockHeight d'"
    "length (spent d2) = length (spent d')"
    using spentExtends_fields [OF d2(2)] by simp_all
  have bit: "unat (Index (PreviousOutpoint txIn1)) < length (spent d2)
      \<and> spent d2 ! unat (Index (PreviousOutpoint txIn1))"
    using spentExtends_bit [OF d2(2) m(7) m(8)] .
  show ?thesis using d2(1) m(4,5,6) f1 f2 bit by auto
qed

text \<open>
  Claim C2. \<^verbatim>\<open>checkTransactionInputs\<close> leaves a store that extends the one it was
  given: the same keys, the same entries but for their spent bitmaps, which keep their
  length and every bit that was set. An input whose referenced output has its spent bit
  set is rejected as a double spend when the loop reaches it, and its transaction is
  rejected in any case. So when a transaction has passed and a later transaction of the
  pass refers to one of its outpoints, the later one is rejected, and as a double spend
  when that input is its first.
\<close>

theorem spent_monotone_double_spend:
  "storeExtends s (snd (checkTransactionInputs env msgTx txHeight s))
   \<and> (s h = Some d \<and> snd (checkTransactionInputs env msgTx txHeight s) h = Some d'
        \<and> i < length (spent d) \<and> spent d ! i
      \<longrightarrow> i < length (spent d') \<and> spent d' ! i)
   \<and> (s (Hash (PreviousOutpoint txIn)) = Some d \<and> tx d = Some otx
        \<and> \<not> (isCoinBase otx \<and> sint (txHeight - blockHeight d) < sint (coinbaseMaturity env))
        \<and> Index (PreviousOutpoint txIn) < of_nat (length (spent d))
        \<and> spent d ! unat (Index (PreviousOutpoint txIn))
      \<longrightarrow> checkTxIn env txHeight tot txIn s = (Inl ErrDoubleSpend, s))
   \<and> (\<not> isCoinBase msgTx \<and> txIn \<in> set (TxIn msgTx)
        \<and> s (Hash (PreviousOutpoint txIn)) = Some d
        \<and> unat (Index (PreviousOutpoint txIn)) < length (spent d)
        \<and> spent d ! unat (Index (PreviousOutpoint txIn))
      \<longrightarrow> (\<exists>e. fst (checkTransactionInputs env msgTx txHeight s) = Inl e))
   \<and> (checkTransactionInputs env tx1 txHeight s = (Inr fee1, s1) \<and> \<not> isCoinBase tx1
        \<and> txIn1 \<in> set (TxIn tx1) \<and> storeExtends s1 s2
        \<and> \<not> isCoinBase tx2 \<and> txIn2 \<in> set (TxIn tx2)
        \<and> PreviousOutpoint txIn2 = PreviousOutpoint txIn1
      \<longrightarrow> (\<exists>e. fst (checkTransactionInputs env tx2 txHeight2 s2) = Inl e))
   \<and> (checkTransactionInputs env tx1 txHeight s = (Inr fee1, s1) \<and> \<not> isCoinBase tx1
        \<and> txIn1 \<in> set (TxIn tx1) \<and> storeExtends s1 s2
        \<and> \<not> isCoinBase tx2 \<and> TxIn tx2 = txIn2 # rest \<and> TxSha env tx2 = Inr txHash2
        \<and> PreviousOutpoint txIn2 = PreviousOutpoint txIn1
      \<longrightarrow> checkTransactionInputs env tx2 txHeight s2 = (Inl ErrDoubleSpend, s2))"
proof -
  have p1: "storeExtends s (snd (checkTransactionInputs env msgTx txHeight s))"
    by (rule checkTransactionInputs_extends)
  have p2: "i < length (spent d') \<and> spent d' ! i"
    if "s h = Some d" "snd (checkTransactionInputs env msgTx txHeight s) h = Some d'"
      "i < length (spent d)" "spent d ! i"
  proof -
    note prem = that
    obtain dd where "snd (checkTransactionInputs env msgTx txHeight s) h = Some dd"
      "spentExtends d dd"
      using storeExtendsD_Some [OF p1 prem(1)] by blast
    then have "spentExtends d d'" using prem(2) by simp
    then show ?thesis using spentExtends_bit prem(3,4) by blast
  qed
  have p3: "checkTxIn env txHeight tot txIn s = (Inl ErrDoubleSpend, s)"
    if "s (Hash (PreviousOutpoint txIn)) = Some d" "tx d = Some otx"
       "\<not> (isCoinBase otx \<and> sint (txHeight - blockHeight d) < sint (coinbaseMaturity env))"
       "Index (PreviousOutpoint txIn) < of_nat (length (spent d))"
       "spent d ! unat (Index (PreviousOutpoint txIn))"
    using that by (intro checkTxIn_spent) simp_all
  have p4: "\<exists>e. fst (checkTransactionInputs env msgTx txHeight s) = Inl e"
    if "\<not> isCoinBase msgTx" "txIn \<in> set (TxIn msgTx)"
        "s (Hash (PreviousOutpoint txIn)) = Some d"
        "unat (Index (PreviousOutpoint txIn)) < length (spent d)"
        "spent d ! unat (Index (PreviousOutpoint txIn))"
    using checkTransactionInputs_spent_rejects [of msgTx txIn s d env txHeight] that
    by blast
  have p5: "\<exists>e. fst (checkTransactionInputs env tx2 txHeight2 s2) = Inl e"
    if "checkTransactionInputs env tx1 txHeight s = (Inr fee1, s1)" "\<not> isCoinBase tx1"
       "txIn1 \<in> set (TxIn tx1)" "storeExtends s1 s2"
       "\<not> isCoinBase tx2" "txIn2 \<in> set (TxIn tx2)"
       "PreviousOutpoint txIn2 = PreviousOutpoint txIn1"
  proof -
    note prem = that
    obtain d2 where "s2 (Hash (PreviousOutpoint txIn1)) = Some d2"
      "unat (Index (PreviousOutpoint txIn1)) < length (spent d2)"
      "spent d2 ! unat (Index (PreviousOutpoint txIn1))"
      using second_spend_state [OF prem(1-4)] by blast
    then show ?thesis
      using checkTransactionInputs_spent_rejects [of tx2 txIn2 s2 d2 env txHeight2] prem(5,6,7)
      by simp
  qed
  have p6: "checkTransactionInputs env tx2 txHeight s2 = (Inl ErrDoubleSpend, s2)"
    if "checkTransactionInputs env tx1 txHeight s = (Inr fee1, s1)" "\<not> isCoinBase tx1"
       "txIn1 \<in> set (TxIn tx1)" "storeExtends s1 s2"
       "\<not> isCoinBase tx2" "TxIn tx2 = txIn2 # rest" "TxSha env tx2 = Inr txHash2"
       "PreviousOutpoint txIn2 = PreviousOutpoint txIn1"
  proof -
    note prem = that
    obtain d2 otx where d2: "s2 (Hash (PreviousOutpoint txIn1)) = Some d2" "tx d2 = Some otx"
      "\<not> (isCoinBase otx \<and> sint (txHeight - blockHeight d2) < sint (coinbaseMaturity env))"
      "\<not> (of_nat (length (spent d2)) :: uint32) \<le> Index (PreviousOutpoint txIn1)"
      "spent d2 ! unat (Index (PreviousOutpoint txIn1))"
      using second_spend_state [OF prem(1-4)] by blast
    have "checkTxIn env txHeight 0 txIn2 s2 = (Inl ErrDoubleSpend, s2)"
      using d2 prem(8) by (intro checkTxIn_spent) simp_all
    then show ?thesis
      using prem(5,6,7) by (simp add: checkTransactionInputs_def)
  qed
  show ?thesis using p1 p2 p3 p4 p5 p6 by blast
qed

lemmas example_defs = exampleEnv_def exampleStore_def coinbaseStore_def prevTx_def
  coinbaseOf_def spendOf_def blockOf_def

lemmas input_defs = checkTransactionInputs_def checkTxIn_def isCoinBase_def sumTxOut_def
  MaxUint32_def zeroHash_def maxSatoshi_def satoshiPerBitcoin_def

theorem spent_monotone_double_spend_witness:
  "checkTransactionInputs exampleEnv (spendOf 2 []) 210000 exampleStore
     = (Inr 100, exampleStore(0x1111 \<mapsto>
          \<lparr>tx = Some prevTx, hash = 0x1111, blockHeight = 1000, spent = [True], err = None\<rparr>))
   \<and> \<not> isCoinBase (spendOf 2 [])
   \<and> \<not> isCoinBase (spendOf 3 [])
   \<and> TxSha exampleEnv (spendOf 3 []) = Inr 3
   \<and> checkTransactionInputs exampleEnv (spendOf 3 []) 210000
        (exampleStore(0x1111 \<mapsto>
          \<lparr>tx = Some prevTx, hash = 0x1111, blockHeight = 1000, spent = [True], err = None\<rparr>))
     = (Inl ErrDoubleSpend, exampleStore(0x1111 \<mapsto>
          \<lparr>tx = Some prevTx, hash = 0x1111, blockHeight = 1000, spent = [True], err = None\<rparr>))"
proof -
  let ?s1 = "exampleStore(0x1111 \<mapsto>
          \<lparr>tx = Some prevTx, hash = 0x1111, blockHeight = 1000, spent = [True], err = None\<rparr>)"
  let ?txIn = "\<lparr>PreviousOutpoint = \<lparr>Hash = 0x1111, Index = 0\<rparr>, SignatureScript = [],
               Sequence = 0xFFFFFFFF\<rparr>"
  have a: "checkTransactionInputs exampleEnv (spendOf 2 []) 210000 exampleStore = (Inr 100, ?s1)"
    by (simp add: example_defs input_defs)
  have b: "\<not> isCoinBase (spendOf 2 [])" "\<not> isCoinBase (spendOf 3 [])"
    by (simp_all add: example_defs input_defs)
  have c: "?txIn \<in> set (TxIn (spendOf 2 []))" "TxIn (spendOf 3 []) = ?txIn # []"
    by (simp_all add: example_defs)
  have d: "TxSha exampleEnv (spendOf 3 []) = Inr 3" by (simp add: example_defs)
  have e: "storeExtends ?s1 ?s1" by (rule storeExtends_refl)
  have "checkTransactionInputs exampleEnv (spendOf 3 []) 210000 ?s1 = (Inl ErrDoubleSpend, ?s1)"
    using spent_monotone_double_spend
      [where env = exampleEnv and ?tx1.0 = "spendOf 2 []" and txHeight = 210000
         and s = exampleStore and ?fee1.0 = 100 and ?s1.0 = ?s1 and ?s2.0 = ?s1
         and ?txIn1.0 = ?txIn and ?tx2.0 = "spendOf 3 []" and ?txIn2.0 = ?txIn
         and rest = "[]" and ?txHash2.0 = 3]
      a b c d e
    by blast
  then show ?thesis using a b d by simp
qed

subsection \<open>Coinbase maturity\<close>





lemma storeExtends_back:
  assumes "storeExtends s s1" "s1 k = Some d1"
  shows "\<exists>d. s k = Some d \<and> spentExtends d d1"
proof (cases "s k")
  case None
  then show ?thesis using storeExtendsD_None [OF assms(1)] assms(2) by simp
next
  case (Some d)
  then show ?thesis using storeExtendsD_Some [OF assms(1) Some] assms(2) by auto
qed





subsection \<open>Determinism and the frame of the store\<close>

text \<open>Which collaborators each function reads.\<close>

lemma checkTxIn_env:
  assumes "coinbaseMaturity env' = coinbaseMaturity env"
  shows "checkTxIn env' txHeight tot txIn s = checkTxIn env txHeight tot txIn s"
  unfolding checkTxIn_def assms by (rule refl)

lemma checkTxIns_env:
  assumes "coinbaseMaturity env' = coinbaseMaturity env"
  shows "checkTxIns env' txHeight tot ins s = checkTxIns env txHeight tot ins s"
proof (induction ins arbitrary: tot s)
  case Nil
  show ?case by simp
next
  case (Cons txIn rest)
  show ?case
    unfolding checkTxIns.simps checkTxIn_env [OF assms] Cons.IH by (rule refl)
qed

lemma checkTransactionInputs_env:
  assumes "coinbaseMaturity env' = coinbaseMaturity env" "TxSha env' = TxSha env"
  shows "checkTransactionInputs env' msgTx txHeight s
         = checkTransactionInputs env msgTx txHeight s"
  unfolding checkTransactionInputs_def assms(2) checkTxIns_env [OF assms(1)] by (rule refl)

lemma connectFees_env:
  assumes "coinbaseMaturity env' = coinbaseMaturity env" "TxSha env' = TxSha env"
  shows "connectFees env' nodeHeight totalFees txs s = connectFees env nodeHeight totalFees txs s"
proof (induction txs arbitrary: totalFees s)
  case Nil
  show ?case by simp
next
  case (Cons msgTx rest)
  show ?case
    unfolding connectFees.simps checkTransactionInputs_env [OF assms] Cons.IH by (rule refl)
qed

lemma countSigOps_env:
  assumes "GetSigOpCount env' = GetSigOpCount env"
  shows "countSigOps env' msgTx = countSigOps env msgTx"
  unfolding countSigOps_def assms by (rule refl)

lemma countP2SHInputs_env:
  assumes "IsPayToScriptHash env' = IsPayToScriptHash env"
    "GetPreciseSigOpCount env' = GetPreciseSigOpCount env"
  shows "countP2SHInputs env' s tot ins = countP2SHInputs env s tot ins"
proof (induction ins arbitrary: tot)
  case Nil
  show ?case by simp
next
  case (Cons txIn rest)
  show ?case
    unfolding countP2SHInputs.simps countP2SHInput_def assms Cons.IH by (rule refl)
qed

lemma txSigOps_env:
  assumes "GetSigOpCount env' = GetSigOpCount env"
    "enforce \<longrightarrow> IsPayToScriptHash env' = IsPayToScriptHash env
       \<and> GetPreciseSigOpCount env' = GetPreciseSigOpCount env \<and> TxSha env' = TxSha env"
  shows "txSigOps env' enforce s i msgTx = txSigOps env enforce s i msgTx"
proof (cases enforce)
  case True
  then have a: "IsPayToScriptHash env' = IsPayToScriptHash env"
    "GetPreciseSigOpCount env' = GetPreciseSigOpCount env" "TxSha env' = TxSha env"
    using assms(2) by simp_all
  show ?thesis
    unfolding txSigOps_def countP2SHSigOps_def countSigOps_env [OF assms(1)] a(3)
      countP2SHInputs_env [OF a(1,2)]
    by (rule refl)
next
  case False
  then show ?thesis by (simp add: txSigOps_def countSigOps_env [OF assms(1)])
qed

lemma connectSigOps_env:
  assumes "GetSigOpCount env' = GetSigOpCount env" "MaxBlockPayload env' = MaxBlockPayload env"
    "enforce \<longrightarrow> IsPayToScriptHash env' = IsPayToScriptHash env
       \<and> GetPreciseSigOpCount env' = GetPreciseSigOpCount env \<and> TxSha env' = TxSha env"
  shows "connectSigOps env' enforce s i tot txs = connectSigOps env enforce s i tot txs"
proof (induction txs arbitrary: i tot)
  case Nil
  show ?case by simp
next
  case (Cons msgTx rest)
  have m: "maxSigOpsPerBlock env' = maxSigOpsPerBlock env"
    by (simp add: maxSigOpsPerBlock_def assms(2))
  show ?case
    unfolding connectSigOps.simps txSigOps_env [OF assms(1,3)] m Cons.IH by (rule refl)
qed

lemma connectWithStore_env:
  assumes "GetSigOpCount env' = GetSigOpCount env" "MaxBlockPayload env' = MaxBlockPayload env"
    "Bip16Activation env' = Bip16Activation env"
    "timestamp node > Bip16Activation env \<longrightarrow> IsPayToScriptHash env' = IsPayToScriptHash env
       \<and> GetPreciseSigOpCount env' = GetPreciseSigOpCount env"
    "TxSha env' = TxSha env" "coinbaseMaturity env' = coinbaseMaturity env"
    "LatestCheckpoint env' = LatestCheckpoint env" "noVerify env' = noVerify env"
    "checkBlockScripts env' = checkBlockScripts env"
  shows "connectWithStore env' node block s = connectWithStore env node block s"
proof -
  have a: "connectSigOps env' (timestamp node > Bip16Activation env) s 0 0 (Transactions block)
      = connectSigOps env (timestamp node > Bip16Activation env) s 0 0 (Transactions block)"
    using assms(4,5) by (intro connectSigOps_env [OF assms(1,2)]) simp
  have b: "connectFees env' (height node) 0 (Transactions block) s
      = connectFees env (height node) 0 (Transactions block) s"
    by (rule connectFees_env [OF assms(6,5)])
  have c: "runScripts env' node = runScripts env node"
    unfolding runScripts_def assms(7,8) by (rule refl)
  show ?thesis
    unfolding connectWithStore_def assms(3) a b c assms(9) by (rule refl)
qed

lemma checkBIP0030_env:
  assumes "TxShas env' = TxShas env" "fetchTxList env' = fetchTxList env"
  shows "checkBIP0030 env' node block = checkBIP0030 env node block"
  unfolding checkBIP0030_def assms by (rule refl)

lemma checkConnectBlock_finalStore:
  assumes "finalStore (checkConnectBlock env node block) = Some s'"
  shows "\<exists>s. fetchInputTransactions env node block = Inr s
           \<and> s' = fst (snd (connectWithStore env node block s))"
  using assms
  by (auto simp: checkConnectBlock_def split: if_splits prod.splits option.splits sum.splits)

lemma checkConnectBlock_fetch_cong:
  assumes "f1 node block = f2 node block"
  shows "checkConnectBlock (env\<lparr>fetchInputTransactions := f1\<rparr>) node block
         = checkConnectBlock (env\<lparr>fetchInputTransactions := f2\<rparr>) node block"
proof -
  have c: "connectWithStore (env\<lparr>fetchInputTransactions := f1\<rparr>) node block s
      = connectWithStore (env\<lparr>fetchInputTransactions := f2\<rparr>) node block s" for s
    by (rule connectWithStore_env) simp_all
  have b: "checkBIP0030 (env\<lparr>fetchInputTransactions := f1\<rparr>) node block
      = checkBIP0030 (env\<lparr>fetchInputTransactions := f2\<rparr>) node block"
    by (rule checkBIP0030_env) simp_all
  have g: "GenesisHash (env\<lparr>fetchInputTransactions := f1\<rparr>)
      = GenesisHash (env\<lparr>fetchInputTransactions := f2\<rparr>)" by simp
  have f: "fetchInputTransactions (env\<lparr>fetchInputTransactions := f1\<rparr>) node block
      = fetchInputTransactions (env\<lparr>fetchInputTransactions := f2\<rparr>) node block"
    using assms by simp
  show ?thesis
    unfolding checkConnectBlock_def g f b c by (rule refl)
qed

text \<open>
  Claim C9. The outcome of \<^verbatim>\<open>checkConnectBlock\<close> (verdict, final store, calls) is a
  function of the block, the node and the store the fetch returns: two runs whose
  fetches return equal stores give the same outcome, the final stores included. The
  store it leaves has the keys of the fetched store, and each entry is the fetched one
  but for its spent bitmap, which keeps its length and every set bit.
\<close>

theorem connect_deterministic_only_spent:
  "(f1 node block = f2 node block \<longrightarrow>
      checkConnectBlock (env\<lparr>fetchInputTransactions := f1\<rparr>) node block
      = checkConnectBlock (env\<lparr>fetchInputTransactions := f2\<rparr>) node block)
   \<and> (s1 = s2 \<longrightarrow> connectWithStore env node block s1 = connectWithStore env node block s2)
   \<and> storeExtends s (fst (snd (connectWithStore env node block s)))
   \<and> storeExtends s (snd (checkTransactionInputs env msgTx txHeight s))
   \<and> (fetchInputTransactions env node block = Inr s
        \<and> finalStore (checkConnectBlock env node block) = Some s'
      \<longrightarrow> storeExtends s s'
          \<and> dom s' = dom s
          \<and> (\<forall>h d'. s' h = Some d' \<longrightarrow>
                (\<exists>d. s h = Some d \<and> d' = d\<lparr>spent := spent d'\<rparr>
                      \<and> length (spent d') = length (spent d))))"
proof -
  have p5: "storeExtends s s' \<and> dom s' = dom s
          \<and> (\<forall>h d'. s' h = Some d' \<longrightarrow>
                (\<exists>d. s h = Some d \<and> d' = d\<lparr>spent := spent d'\<rparr>
                      \<and> length (spent d') = length (spent d)))"
    if "fetchInputTransactions env node block = Inr s"
       "finalStore (checkConnectBlock env node block) = Some s'"
  proof -
    note prem = that
    have "s' = fst (snd (connectWithStore env node block s))"
      using checkConnectBlock_finalStore [OF prem(2)] prem(1) by simp
    then have e: "storeExtends s s'" using connectWithStore_extends [of s env node block] by simp
    have d: "dom s' = dom s"
    proof (rule set_eqI)
      fix h
      show "h \<in> dom s' \<longleftrightarrow> h \<in> dom s"
        using storeExtendsD_None [OF e, of h] storeExtendsD_Some [OF e, of h]
        by (cases "s h") auto
    qed
    have f: "\<exists>d. s h = Some d \<and> d' = d\<lparr>spent := spent d'\<rparr>
                \<and> length (spent d') = length (spent d)"
      if "s' h = Some d'" for h d'
      using storeExtends_back [OF e that] by (auto simp: spentExtends_def)
    show ?thesis using e d f by blast
  qed
  show ?thesis
    using checkConnectBlock_fetch_cong [of f1 node block f2 env]
      connectWithStore_extends [of s env node block]
      checkTransactionInputs_extends [of s env msgTx txHeight] p5
    by blast
qed

lemmas connect_defs = checkConnectBlock_def connectWithStore_def checkBIP0030_def
  isBIP0030Node_def txSigOps_def countSigOps_def countP2SHSigOps_def countP2SHInput_def
  runScripts_def maxSigOpsPerBlock_def calcBlockSubsidy_def baseSubsidy_def
  subsidyHalvingInterval_def signed_divide_int_def block91842Hash_def block91880Hash_def

theorem connect_deterministic_only_spent_witness:
  "fetchInputTransactions exampleEnv \<lparr>hash = 0x4444, height = 210000, timestamp = 1300000000\<rparr>
      (blockOf 1 2 [coinbaseOf [3, 0x50, 0x34, 0x03] 2500000100, spendOf 2 []])
     = Inr exampleStore
   \<and> finalStore (checkConnectBlock exampleEnv
        \<lparr>hash = 0x4444, height = 210000, timestamp = 1300000000\<rparr>
        (blockOf 1 2 [coinbaseOf [3, 0x50, 0x34, 0x03] 2500000100, spendOf 2 []]))
     = Some (exampleStore(0x1111 \<mapsto>
          \<lparr>tx = Some prevTx, hash = 0x1111, blockHeight = 1000, spent = [True], err = None\<rparr>))
   \<and> storeExtends exampleStore (exampleStore(0x1111 \<mapsto>
          \<lparr>tx = Some prevTx, hash = 0x1111, blockHeight = 1000, spent = [True], err = None\<rparr>))
   \<and> dom (exampleStore(0x1111 \<mapsto>
          \<lparr>tx = Some prevTx, hash = 0x1111, blockHeight = 1000, spent = [True], err = None\<rparr>))
     = dom exampleStore"
proof -
  let ?node = "\<lparr>hash = 0x4444, height = 210000, timestamp = 1300000000\<rparr>"
  let ?block = "blockOf 1 2 [coinbaseOf [3, 0x50, 0x34, 0x03] 2500000100, spendOf 2 []]"
  let ?s1 = "exampleStore(0x1111 \<mapsto>
          \<lparr>tx = Some prevTx, hash = 0x1111, blockHeight = 1000, spent = [True], err = None\<rparr>)"
  have a: "fetchInputTransactions exampleEnv ?node ?block = Inr exampleStore"
    by (simp add: exampleEnv_def)
  have b: "finalStore (checkConnectBlock exampleEnv ?node ?block) = Some ?s1"
    by (simp add: example_defs input_defs connect_defs)
  have "storeExtends exampleStore ?s1 \<and> dom ?s1 = dom exampleStore"
    using connect_deterministic_only_spent
      [where env = exampleEnv and node = ?node and block = ?block and s = exampleStore
         and s' = ?s1]
      a b
    by blast
  then show ?thesis using a b by simp
qed

subsection \<open>The coinbase cap\<close>







lemma connectWithStore_accepts:
  assumes "fst (connectWithStore env node block s) = None"
  shows "\<exists>coinbaseTx rest totalFees s'. Transactions block = coinbaseTx # rest
           \<and> connectSigOps env (timestamp node > Bip16Activation env) s 0 0
                (Transactions block) = None
           \<and> connectFees env (height node) 0 (Transactions block) s = (Inr totalFees, s')
           \<and> sint (sumTxOut (TxOut coinbaseTx))
               \<le> sint (calcBlockSubsidy (height node) + totalFees)"
  using assms
  by (auto simp: connectWithStore_def
      split: option.splits prod.splits sum.splits list.splits if_splits)

lemma checkConnectBlock_accepts:
  assumes "blockNode.hash node \<noteq> GenesisHash env"
    "verdict (checkConnectBlock env node block) = None"
  shows "\<exists>s. fetchInputTransactions env node block = Inr s
           \<and> fst (connectWithStore env node block s) = None"
  using assms
  by (auto simp: checkConnectBlock_def split: option.splits prod.splits sum.splits if_splits)



subsection \<open>The BIP0016 gate\<close>

lemma sint_add_mixed:
  assumes "0 \<le> sint a" "sint b < 0"
  shows "sint (a + b :: int64) = sint a + sint b"
proof -
  have "sint a < 2 ^ 63" "- (2 ^ 63) \<le> sint b" using sint_lt [of a] sint_ge [of b] by simp_all
  then show ?thesis using assms by (intro sint_add_exact) simp_all
qed

text \<open>A step of an overflow-checked accumulation that is not rejected is exact.\<close>

lemma checked_add_exact:
  assumes "0 \<le> sint a" "\<not> sint (a + b :: int64) < sint a"
  shows "0 \<le> sint b \<and> sint (a + b) = sint a + sint b"
proof (cases "sint b < 0")
  case True
  then show ?thesis using sint_add_mixed [OF assms(1) True] assms(2) by simp
next
  case False
  then have b: "0 \<le> sint b" by simp
  show ?thesis
  proof (cases "sint a + sint b < 2 ^ 63")
    case True
    then show ?thesis using assms(1) b by (simp add: sint_add_exact)
  next
    case False
    then have "sint (a + b) = sint a + sint b - 2 ^ 64"
      using assms(1) b by (intro sint_add_wrapped) simp_all
    moreover have "sint b < 2 ^ 63" using sint_lt [of b] by simp
    ultimately show ?thesis using assms(2) by simp
  qed
qed

lemma sum_upt_Suc_shift:
  "(\<Sum>k\<leftarrow>[0..<Suc n]. f k) = f 0 + (\<Sum>k\<leftarrow>[0..<n]. f (Suc k) :: int)"
proof -
  have "[0..<Suc n] = 0 # map Suc [0..<n]"
    by (simp add: upt_conv_Cons map_Suc_upt del: upt_Suc)
  then have "(\<Sum>k\<leftarrow>[0..<Suc n]. f k) = (\<Sum>k\<leftarrow>(0 # map Suc [0..<n]). f k)" by simp
  then show ?thesis by (simp add: comp_def)
qed

text \<open>What an accepted signature operation pass has added up, without and with BIP0016.\<close>

lemma connectSigOps_plain_accepts:
  assumes "connectSigOps env False s i tot txs = None" "0 \<le> sint tot"
    "txs \<noteq> [] \<or> sint tot \<le> maxSigOpsPerBlock env"
  shows "sint tot + (\<Sum>msgTx\<leftarrow>txs. sint (countSigOps env msgTx)) \<le> maxSigOpsPerBlock env"
  using assms
proof (induction txs arbitrary: i tot)
  case Nil
  then show ?case by simp
next
  case (Cons msgTx rest)
  let ?n = "countSigOps env msgTx"
  have st: "\<not> sint (tot + ?n) < sint tot" "\<not> sint (tot + ?n) > maxSigOpsPerBlock env"
    "connectSigOps env False s (Suc i) (tot + ?n) rest = None"
    using Cons.prems(1) by (auto simp: txSigOps_def split: if_splits)
  have ex: "0 \<le> sint ?n" "sint (tot + ?n) = sint tot + sint ?n"
    using checked_add_exact [OF Cons.prems(2) st(1)] by simp_all
  have "sint (tot + ?n) + (\<Sum>msgTx\<leftarrow>rest. sint (countSigOps env msgTx))
          \<le> maxSigOpsPerBlock env"
    using st(2) ex Cons.prems(2) by (intro Cons.IH [OF st(3)]) simp_all
  then show ?case using ex by simp
qed

lemma connectSigOps_p2sh_accepts:
  assumes "connectSigOps env True s i tot txs = None" "0 \<le> sint tot"
    "txs \<noteq> [] \<or> sint tot \<le> maxSigOpsPerBlock env"
  shows "(\<forall>k < length txs. \<exists>p. countP2SHSigOps env (txs ! k) (i + k = 0) s = Inr p)
         \<and> sint tot + (\<Sum>k\<leftarrow>[0..<length txs].
               sint (countSigOps env (txs ! k) + p2shSigOps env s (i + k) (txs ! k)))
             \<le> maxSigOpsPerBlock env"
  using assms
proof (induction txs arbitrary: i tot)
  case Nil
  then show ?case by simp
next
  case (Cons msgTx rest)
  obtain p where p: "countP2SHSigOps env msgTx (i = 0) s = Inr p"
    using Cons.prems(1) by (cases "countP2SHSigOps env msgTx (i = 0) s") (auto simp: txSigOps_def)
  let ?n = "countSigOps env msgTx + p"
  have tx: "txSigOps env True s i msgTx = Inr ?n" using p by (simp add: txSigOps_def)
  have st: "\<not> sint (tot + ?n) < sint tot" "\<not> sint (tot + ?n) > maxSigOpsPerBlock env"
    "connectSigOps env True s (Suc i) (tot + ?n) rest = None"
    using Cons.prems(1) tx by (auto split: if_splits)
  have ex: "0 \<le> sint ?n" "sint (tot + ?n) = sint tot + sint ?n"
    using checked_add_exact [OF Cons.prems(2) st(1)] by simp_all
  have IH: "(\<forall>k < length rest. \<exists>p. countP2SHSigOps env (rest ! k) (Suc i + k = 0) s = Inr p)
         \<and> sint (tot + ?n) + (\<Sum>k\<leftarrow>[0..<length rest].
               sint (countSigOps env (rest ! k) + p2shSigOps env s (Suc i + k) (rest ! k)))
             \<le> maxSigOpsPerBlock env"
    using st(2) ex Cons.prems(2) by (intro Cons.IH [OF st(3)]) simp_all
  have a: "\<exists>q. countP2SHSigOps env ((msgTx # rest) ! k) (i + k = 0) s = Inr q"
    if "k < length (msgTx # rest)" for k
  proof (cases k)
    case 0
    then show ?thesis using p by simp
  next
    case (Suc k')
    then show ?thesis using IH that by simp
  qed
  have p0: "p2shSigOps env s i msgTx = p" using p by (simp add: p2shSigOps_def)
  have "(\<Sum>k\<leftarrow>[0..<length (msgTx # rest)].
           sint (countSigOps env ((msgTx # rest) ! k)
                 + p2shSigOps env s (i + k) ((msgTx # rest) ! k)))
      = sint ?n + (\<Sum>k\<leftarrow>[0..<length rest].
           sint (countSigOps env (rest ! k) + p2shSigOps env s (Suc i + k) (rest ! k)))"
    using sum_upt_Suc_shift [of "\<lambda>k. sint (countSigOps env ((msgTx # rest) ! k)
                 + p2shSigOps env s (i + k) ((msgTx # rest) ! k))" "length rest"]
    by (simp add: p0)
  then show ?case using a IH ex by simp
qed

lemma checkConnectBlock_p2sh_irrelevant:
  assumes "timestamp node \<le> Bip16Activation env"
  shows "checkConnectBlock
           (env\<lparr>IsPayToScriptHash := isP2SH, GetPreciseSigOpCount := precise\<rparr>) node block
         = checkConnectBlock env node block"
proof -
  let ?env' = "env\<lparr>IsPayToScriptHash := isP2SH, GetPreciseSigOpCount := precise\<rparr>"
  have c: "connectWithStore ?env' node block s = connectWithStore env node block s" for s
    using assms by (intro connectWithStore_env) simp_all
  have b: "checkBIP0030 ?env' node block = checkBIP0030 env node block"
    by (rule checkBIP0030_env) simp_all
  have g: "GenesisHash ?env' = GenesisHash env"
    "fetchInputTransactions ?env' = fetchInputTransactions env" by simp_all
  show ?thesis
    unfolding checkConnectBlock_def g b c by (rule refl)
qed

lemma connectWithStore_sigops_pass:
  assumes "fst (connectWithStore env node block s) = None"
  shows "connectSigOps env (timestamp node > Bip16Activation env) s 0 0 (Transactions block)
           = None \<and> Transactions block \<noteq> []"
  using connectWithStore_accepts [OF assms] by auto

text \<open>
  Claim C7. The pay-to-script-hash count enters the signature operation pass of
  \<^verbatim>\<open>checkConnectBlock\<close> exactly when the node's timestamp is after
  \<open>Bip16Activation\<close>. At or before the activation time the outcome does not depend on
  the pay-to-script-hash test or on the precise counter, and an accepted block has at
  most \<open>maxSigOpsPerBlock\<close> operations by the imprecise count alone. After it, an
  accepted block has a pay-to-script-hash count for every transaction, and the imprecise
  counts and these together are at most \<open>maxSigOpsPerBlock\<close>.
\<close>

theorem bip16_gate:
  "(timestamp node \<le> Bip16Activation env
    \<longrightarrow> checkConnectBlock
          (env\<lparr>IsPayToScriptHash := isP2SH, GetPreciseSigOpCount := precise\<rparr>) node block
        = checkConnectBlock env node block)
   \<and> (blockNode.hash node \<noteq> GenesisHash env
        \<and> verdict (checkConnectBlock env node block) = None
        \<and> timestamp node \<le> Bip16Activation env
      \<longrightarrow> (\<Sum>msgTx\<leftarrow>Transactions block. sint (countSigOps env msgTx))
            \<le> maxSigOpsPerBlock env)
   \<and> (blockNode.hash node \<noteq> GenesisHash env
        \<and> verdict (checkConnectBlock env node block) = None
        \<and> timestamp node > Bip16Activation env
      \<longrightarrow> (\<exists>s. fetchInputTransactions env node block = Inr s
             \<and> (\<forall>k < length (Transactions block).
                   \<exists>p. countP2SHSigOps env (Transactions block ! k) (k = 0) s = Inr p)
             \<and> (\<Sum>k\<leftarrow>[0..<length (Transactions block)].
                   sint (countSigOps env (Transactions block ! k)
                         + p2shSigOps env s k (Transactions block ! k)))
                 \<le> maxSigOpsPerBlock env))"
proof -
  have p1: "checkConnectBlock
          (env\<lparr>IsPayToScriptHash := isP2SH, GetPreciseSigOpCount := precise\<rparr>) node block
        = checkConnectBlock env node block"
    if "timestamp node \<le> Bip16Activation env"
    using that by (rule checkConnectBlock_p2sh_irrelevant)
  have p2: "(\<Sum>msgTx\<leftarrow>Transactions block. sint (countSigOps env msgTx))
            \<le> maxSigOpsPerBlock env"
    if "blockNode.hash node \<noteq> GenesisHash env"
       "verdict (checkConnectBlock env node block) = None"
       "timestamp node \<le> Bip16Activation env"
  proof -
    note prem = that
    obtain s where s: "fetchInputTransactions env node block = Inr s"
      "fst (connectWithStore env node block s) = None"
      using checkConnectBlock_accepts [OF prem(1,2)] by blast
    have "connectSigOps env False s 0 0 (Transactions block) = None"
      "Transactions block \<noteq> []"
      using connectWithStore_sigops_pass [OF s(2)] prem(3) by simp_all
    then show ?thesis
      using connectSigOps_plain_accepts [of env s 0 0 "Transactions block"] by simp
  qed
  have p3: "\<exists>s. fetchInputTransactions env node block = Inr s
             \<and> (\<forall>k < length (Transactions block).
                   \<exists>p. countP2SHSigOps env (Transactions block ! k) (k = 0) s = Inr p)
             \<and> (\<Sum>k\<leftarrow>[0..<length (Transactions block)].
                   sint (countSigOps env (Transactions block ! k)
                         + p2shSigOps env s k (Transactions block ! k)))
                 \<le> maxSigOpsPerBlock env"
    if "blockNode.hash node \<noteq> GenesisHash env"
       "verdict (checkConnectBlock env node block) = None"
       "timestamp node > Bip16Activation env"
  proof -
    note prem = that
    obtain s where s: "fetchInputTransactions env node block = Inr s"
      "fst (connectWithStore env node block s) = None"
      using checkConnectBlock_accepts [OF prem(1,2)] by blast
    have "connectSigOps env True s 0 0 (Transactions block) = None"
      "Transactions block \<noteq> []"
      using connectWithStore_sigops_pass [OF s(2)] prem(3) by simp_all
    then have "(\<forall>k < length (Transactions block).
                   \<exists>p. countP2SHSigOps env (Transactions block ! k) (k = 0) s = Inr p)
             \<and> (\<Sum>k\<leftarrow>[0..<length (Transactions block)].
                   sint (countSigOps env (Transactions block ! k)
                         + p2shSigOps env s k (Transactions block ! k)))
                 \<le> maxSigOpsPerBlock env"
      using connectSigOps_p2sh_accepts [of env s 0 0 "Transactions block"] by simp
    then show ?thesis using s(1) by (intro exI [of _ s]) simp
  qed
  show ?thesis using p1 p2 p3 by blast
qed

theorem bip16_gate_witness:
  "Bip16Activation exampleEnv = 1333238400
   \<and> maxSigOpsPerBlock exampleEnv = 20000
   \<and> countSigOps exampleEnv (spendOf 2 (replicate 1001 0xAE)) = 0
   \<and> countP2SHSigOps exampleEnv (spendOf 2 (replicate 1001 0xAE)) False exampleStore
       = Inr 20020
   \<and> verdict (checkConnectBlock exampleEnv
        \<lparr>hash = 0x4444, height = 210000, timestamp = 1333238400\<rparr>
        (blockOf 1 2 [coinbaseOf [3, 0x50, 0x34, 0x03] 2500000100,
                      spendOf 2 (replicate 1001 0xAE)])) = None
   \<and> verdict (checkConnectBlock exampleEnv
        \<lparr>hash = 0x4444, height = 210000, timestamp = 1333238401\<rparr>
        (blockOf 1 2 [coinbaseOf [3, 0x50, 0x34, 0x03] 2500000100,
                      spendOf 2 (replicate 1001 0xAE)])) = Some ErrTooManySigOps
   \<and> checkConnectBlock
        (exampleEnv\<lparr>IsPayToScriptHash := \<lambda>script. False,
                    GetPreciseSigOpCount := \<lambda>sigScript pkScript bip16. 0\<rparr>)
        \<lparr>hash = 0x4444, height = 210000, timestamp = 1333238400\<rparr>
        (blockOf 1 2 [coinbaseOf [3, 0x50, 0x34, 0x03] 2500000100,
                      spendOf 2 (replicate 1001 0xAE)])
     = checkConnectBlock exampleEnv
        \<lparr>hash = 0x4444, height = 210000, timestamp = 1333238400\<rparr>
        (blockOf 1 2 [coinbaseOf [3, 0x50, 0x34, 0x03] 2500000100,
                      spendOf 2 (replicate 1001 0xAE)])
   \<and> verdict (checkConnectBlock exampleEnv
        \<lparr>hash = 0x4444, height = 210000, timestamp = 1333238401\<rparr>
        (blockOf 1 2 [coinbaseOf [3, 0x50, 0x34, 0x03] 2500000100, spendOf 2 [0xAE]])) = None
   \<and> p2shSigOps exampleEnv exampleStore 1 (spendOf 2 [0xAE]) = 20"
proof -
  let ?block = "blockOf 1 2 [coinbaseOf [3, 0x50, 0x34, 0x03] 2500000100,
                      spendOf 2 (replicate 1001 0xAE)]"
  let ?at = "\<lparr>hash = 0x4444, height = 210000, timestamp = 1333238400\<rparr>"
  let ?after = "\<lparr>hash = 0x4444, height = 210000, timestamp = 1333238401\<rparr>"
  have a: "Bip16Activation exampleEnv = 1333238400" "maxSigOpsPerBlock exampleEnv = 20000"
    by (simp_all add: exampleEnv_def maxSigOpsPerBlock_def)
  have c: "countSigOps exampleEnv (spendOf 2 (replicate 1001 0xAE)) = 0"
    by (simp add: example_defs countSigOps_def)
  have p: "countP2SHSigOps exampleEnv (spendOf 2 (replicate 1001 0xAE)) False exampleStore
       = Inr 20020"
    by (simp add: example_defs countP2SHSigOps_def countP2SHInput_def)
  have v1: "verdict (checkConnectBlock exampleEnv ?at ?block) = None"
    by (simp add: example_defs input_defs connect_defs)
  have v2: "verdict (checkConnectBlock exampleEnv ?after ?block) = Some ErrTooManySigOps"
    by (simp add: example_defs input_defs connect_defs)
  have le: "timestamp ?at \<le> Bip16Activation exampleEnv" by (simp add: a)
  have e: "checkConnectBlock
        (exampleEnv\<lparr>IsPayToScriptHash := \<lambda>script. False,
                    GetPreciseSigOpCount := \<lambda>sigScript pkScript bip16. 0\<rparr>) ?at ?block
     = checkConnectBlock exampleEnv ?at ?block"
    using bip16_gate [where env = exampleEnv and node = ?at and block = ?block
        and isP2SH = "\<lambda>script. False" and precise = "\<lambda>sigScript pkScript bip16. 0"] le
    by blast
  have v3: "verdict (checkConnectBlock exampleEnv ?after
        (blockOf 1 2 [coinbaseOf [3, 0x50, 0x34, 0x03] 2500000100, spendOf 2 [0xAE]])) = None"
    by (simp add: example_defs input_defs connect_defs)
  have q: "p2shSigOps exampleEnv exampleStore 1 (spendOf 2 [0xAE]) = 20"
    by (simp add: example_defs p2shSigOps_def countP2SHSigOps_def countP2SHInput_def)
  show ?thesis using a c p v1 v2 e v3 q by simp
qed

subsection \<open>The serialized block height\<close>

lemma uint_byte_lt: "uint (b :: byte) < 256"
  using uint_lt2p [of b] by simp

lemma uint_ucast_byte: "uint (ucast (b :: byte) :: uint32) = uint b"
  using uint_byte_lt [of b] by (simp add: unsigned_ucast_eq take_bit_int_eq_self)

lemma uint_push_byte:
  "uint (push_bit 8 (ucast (b :: byte)) :: uint32) = 256 * uint b"
  "uint (push_bit 16 (ucast (b :: byte)) :: uint32) = 65536 * uint b"
  "uint (push_bit 24 (ucast (b :: byte)) :: uint32) = 16777216 * uint b"
  using uint_byte_lt [of b]
  by (simp_all add: push_bit_eq_mult uint_word_ariths uint_ucast_byte take_bit_int_eq_self)

lemma bit_ucast_byte: "bit (ucast (b :: byte) :: uint32) n \<Longrightarrow> n < 8"
  by (auto simp: bit_simps dest: bit_imp_le_length)

lemma bit_push_byte:
  "bit (push_bit m (ucast (b :: byte)) :: uint32) n \<Longrightarrow> m \<le> n \<and> n < m + 8"
  by (auto simp: bit_simps dest: bit_imp_le_length)

text \<open>The value that \<^verbatim>\<open>binary.LittleEndian.Uint32\<close> reads from four bytes.\<close>

lemma LittleEndianUint32_value:
  fixes b0 b1 b2 b3 :: byte
  assumes "LittleEndianUint32 [b0, b1, b2, b3] = Some w"
  shows "uint w = uint b0 + 256 * uint b1 + 65536 * uint b2 + 16777216 * uint b3"
proof -
  let ?A = "ucast b0 :: uint32"
  let ?B = "push_bit 8 (ucast b1) :: uint32"
  let ?C = "push_bit 16 (ucast b2) :: uint32"
  let ?D = "push_bit 24 (ucast b3) :: uint32"
  have w: "w = or ?A (or ?B (or ?C ?D))" using assms by simp
  have cd: "or ?C ?D = ?C + ?D"
    using disjunctive_add [of ?C ?D] bit_push_byte [of 16 b2] bit_push_byte [of 24 b3]
    by fastforce
  have ucd: "uint (?C + ?D) = 65536 * uint b2 + 16777216 * uint b3"
    using uint_byte_lt [of b2] uint_byte_lt [of b3]
    by (simp add: uint_word_ariths take_bit_int_eq_self uint_push_byte)
  have bitcd: "bit (?C + ?D) n \<longleftrightarrow> bit ?C n \<or> bit ?D n" for n
    by (simp only: cd [symmetric] bit_or_iff)
  have "\<not> bit ?B n \<or> \<not> bit (?C + ?D) n" for n
    using bit_push_byte [of 8 b1 n] bit_push_byte [of 16 b2 n] bit_push_byte [of 24 b3 n]
    by (auto simp: bitcd)
  then have bcd: "or ?B (?C + ?D) = ?B + (?C + ?D)"
    using disjunctive_add [of ?B "?C + ?D"] by simp
  have ubcd: "uint (?B + (?C + ?D)) = 256 * uint b1 + 65536 * uint b2 + 16777216 * uint b3"
    using ucd uint_byte_lt [of b1] uint_byte_lt [of b2] uint_byte_lt [of b3]
    by (simp add: uint_word_ariths take_bit_int_eq_self uint_push_byte)
  have bitbcd: "bit (?B + (?C + ?D)) n \<longleftrightarrow> bit ?B n \<or> bit ?C n \<or> bit ?D n" for n
    by (simp only: bcd [symmetric] bit_or_iff bitcd)
  have "\<not> bit ?A n \<or> \<not> bit (?B + (?C + ?D)) n" for n
    using bit_ucast_byte [of b0 n] bit_push_byte [of 8 b1 n] bit_push_byte [of 16 b2 n]
      bit_push_byte [of 24 b3 n]
    by (auto simp: bitbcd)
  then have abcd: "or ?A (?B + (?C + ?D)) = ?A + (?B + (?C + ?D))"
    using disjunctive_add [of ?A "?B + (?C + ?D)"] by simp
  have "uint (?A + (?B + (?C + ?D)))
      = uint b0 + 256 * uint b1 + 65536 * uint b2 + 16777216 * uint b3"
    using ubcd uint_ucast_byte [of b0] uint_byte_lt [of b0] uint_byte_lt [of b1]
      uint_byte_lt [of b2] uint_byte_lt [of b3]
    by (simp add: uint_word_ariths take_bit_int_eq_self)
  then show ?thesis by (simp add: w cd bcd abcd)
qed

lemma sint_ucast_uint32: "sint (ucast (w :: uint32) :: int64) = uint w"
proof -
  have "uint w < 2 ^ 32" using uint_lt2p [of w] by simp
  then have b: "uint w < 2 ^ 63" by simp
  have "uint (ucast w :: int64) = uint w"
    using \<open>uint w < 2 ^ 32\<close> by (simp add: unsigned_ucast_eq take_bit_int_eq_self)
  moreover have "signed_take_bit 63 (uint w) = uint w"
    using b uint_ge_0 [of w] by (intro signed_take_bit_int_eq_self) linarith+
  ultimately show ?thesis by (simp add: sint_uint)
qed

lemma take3_drop1:
  assumes "4 \<le> length (xs :: 'a list)"
  shows "take 3 (drop 1 xs) = [xs ! 1, xs ! 2, xs ! 3]"
proof -
  obtain a b c d r where "xs = a # b # c # d # r"
    using assms by (cases xs; cases "tl xs"; cases "tl (tl xs)"; cases "tl (tl (tl xs))") auto
  then show ?thesis by simp
qed

text \<open>
  Claim C4, as amended. \<^verbatim>\<open>checkSerializedHeight\<close> accepts a transaction with an
  input exactly when the signature script of its first input has at least four bytes
  and the bytes at indices 1, 2 and 3, read as a little-endian number, are the wanted
  height (byte 0 and every byte from index 4 on are not read, and a height of \<open>2^24\<close>
  or more is never accepted). Neither \<^verbatim>\<open>checkBlockSanity\<close> nor
  \<^verbatim>\<open>checkConnectBlock\<close> calls it.
\<close>

theorem checkSerializedHeight_accepts_iff:
  assumes "TxIn coinbaseTx = txIn0 # rest"
  shows "checkSerializedHeight coinbaseTx wantHeight = None
         \<longleftrightarrow> 4 \<le> length (SignatureScript txIn0)
             \<and> sint wantHeight = uint (SignatureScript txIn0 ! 1)
                   + 256 * uint (SignatureScript txIn0 ! 2)
                   + 65536 * uint (SignatureScript txIn0 ! 3)"
proof (cases "4 \<le> length (SignatureScript txIn0)")
  case False
  then show ?thesis using assms by (simp add: checkSerializedHeight_def)
next
  case True
  let ?s = "SignatureScript txIn0"
  let ?w = "or (ucast (?s ! 1)) (or (push_bit 8 (ucast (?s ! 2)))
             (or (push_bit 16 (ucast (?s ! 3))) (push_bit 24 (ucast (0 :: byte))))) :: uint32"
  have b: "take 3 (drop 1 ?s) @ [0] = [?s ! 1, ?s ! 2, ?s ! 3, 0]"
    using take3_drop1 [OF True] by simp
  have l: "LittleEndianUint32 [?s ! 1, ?s ! 2, ?s ! 3, 0] = Some ?w" by simp
  have u: "uint ?w = uint (?s ! 1) + 256 * uint (?s ! 2) + 65536 * uint (?s ! 3)"
    using LittleEndianUint32_value [OF l] by simp
  have "checkSerializedHeight coinbaseTx wantHeight
      = (case LittleEndianUint32 (take 3 (drop 1 ?s) @ [0]) of
           None \<Rightarrow> Some Panic
         | Some serializedHeight \<Rightarrow>
             (if (ucast serializedHeight :: int64) \<noteq> wantHeight then Some ErrHeightMismatch
              else None))"
    using assms True by (simp add: checkSerializedHeight_def)
  also have "\<dots> = (if (ucast ?w :: int64) \<noteq> wantHeight then Some ErrHeightMismatch
              else None)"
    by (simp only: b l option.case)
  finally have c: "checkSerializedHeight coinbaseTx wantHeight = None
      \<longleftrightarrow> (ucast ?w :: int64) = wantHeight"
    by simp
  have "(ucast ?w :: int64) = wantHeight \<longleftrightarrow> sint wantHeight = uint ?w"
    using sint_ucast_uint32 [of ?w] by (metis signed_word_eqI)
  then show ?thesis using c u True by simp
qed

theorem checkSerializedHeight_accepts_iff_witness:
  "TxIn (coinbaseOf [3, 5, 0, 0] 5000000000)
     = [\<lparr>PreviousOutpoint = \<lparr>Hash = 0, Index = 0xFFFFFFFF\<rparr>,
         SignatureScript = [3, 5, 0, 0], Sequence = 0xFFFFFFFF\<rparr>]
   \<and> checkSerializedHeight (coinbaseOf [3, 5, 0, 0] 5000000000) 5 = None
   \<and> checkSerializedHeight (coinbaseOf [3, 5, 0, 0, 7] 5000000000) 5 = None
   \<and> checkSerializedHeight (coinbaseOf [3, 9, 0, 0] 5000000000) 5 = Some ErrHeightMismatch"
proof -
  let ?txIn = "\<lparr>PreviousOutpoint = \<lparr>Hash = 0, Index = 0xFFFFFFFF\<rparr>,
         SignatureScript = [3, 5, 0, 0], Sequence = 0xFFFFFFFF\<rparr>"
  have a: "TxIn (coinbaseOf [3, 5, 0, 0] 5000000000) = ?txIn # []"
    by (simp add: coinbaseOf_def)
  have "checkSerializedHeight (coinbaseOf [3, 5, 0, 0] 5000000000) 5 = None"
    using checkSerializedHeight_accepts_iff [OF a, of 5] by simp
  moreover have "checkSerializedHeight (coinbaseOf [3, 5, 0, 0, 7] 5000000000) 5 = None"
    "checkSerializedHeight (coinbaseOf [3, 9, 0, 0] 5000000000) 5 = Some ErrHeightMismatch"
    by (simp_all add: checkSerializedHeight_def coinbaseOf_def)
  ultimately show ?thesis using a by simp
qed

lemmas sanity_defs = checkBlockSanity_def checkProofOfWork_def checkTransactionSanity_def
  minCoinbaseScriptLen_def maxCoinbaseScriptLen_def isNullOutpoint_def

text \<open>
  Claim C4 as stated fails: a version 2 block whose coinbase script carries the height
  9 passes \<^verbatim>\<open>checkBlockSanity\<close> and is accepted by \<^verbatim>\<open>checkConnectBlock\<close> on a node
  of height 5, while \<^verbatim>\<open>checkSerializedHeight\<close> rejects that coinbase for height 5.
\<close>

theorem serialized_height_not_enforced:
  "2 \<le> sint (Version (Header (blockOf 2 1 [coinbaseOf [3, 9, 0, 0] 5000000000])))
   \<and> checkBlockSanity exampleEnv (blockOf 2 1 [coinbaseOf [3, 9, 0, 0] 5000000000]) = None
   \<and> verdict (checkConnectBlock exampleEnv
        \<lparr>hash = 0x4444, height = 5, timestamp = 1400000000\<rparr>
        (blockOf 2 1 [coinbaseOf [3, 9, 0, 0] 5000000000])) = None
   \<and> checkSerializedHeight (coinbaseOf [3, 9, 0, 0] 5000000000) 5 = Some ErrHeightMismatch"
proof -
  have a: "2 \<le> sint (Version (Header (blockOf 2 1 [coinbaseOf [3, 9, 0, 0] 5000000000])))"
    by (simp add: blockOf_def)
  have b: "checkBlockSanity exampleEnv (blockOf 2 1 [coinbaseOf [3, 9, 0, 0] 5000000000]) = None"
    by (simp add: example_defs input_defs connect_defs sanity_defs)
  have c: "verdict (checkConnectBlock exampleEnv
        \<lparr>hash = 0x4444, height = 5, timestamp = 1400000000\<rparr>
        (blockOf 2 1 [coinbaseOf [3, 9, 0, 0] 5000000000])) = None"
    by (simp add: example_defs input_defs connect_defs)
  have d: "checkSerializedHeight (coinbaseOf [3, 9, 0, 0] 5000000000) 5 = Some ErrHeightMismatch"
    by (simp add: checkSerializedHeight_def coinbaseOf_def)
  show ?thesis using a b c d by simp
qed

end
